theory Spec2Isabelle
  imports Complex_Main
begin

section \<open>Native values\<close>

text \<open>
  A JavaScript number, as far as \<^verbatim>\<open>Object.is\<close> can tell numbers apart: the four special
  forms the encoder tests for, and every other number. \<open>Finite 0\<close> is positive zero.
\<close>

datatype number = NaN | PosInfinity | NegInfinity | NegZero | Finite rat

text \<open>
  A Date is its time value. An invalid Date (time value NaN) has no ISO string:
  \<^verbatim>\<open>toJSON()\<close> answers \<^verbatim>\<open>null\<close> for it. \<open>ValidDate txt\<close> is the valid Date whose
  \<^verbatim>\<open>toISOString()\<close> is \<open>txt\<close>.
\<close>

datatype date = InvalidDate | ValidDate string

type_synonym addr = nat

text \<open>
  Primitive values carry their contents; every object is a reference into the heap, so
  that two occurrences of one object are the same value and an object can contain itself.
\<close>

datatype val =
    VUndefined
  | VNull
  | VBool bool
  | VNum number
  | VStr string
  | VSymbol string
  | VBigInt int
  | VRef addr

text \<open>
  Heap objects, by the first test of \<^verbatim>\<open>serializeValue\<close> they pass: \<^verbatim>\<open>isError\<close> (given by
  \<^verbatim>\<open>name\<close>, \<^verbatim>\<open>message\<close> and \<^verbatim>\<open>stack\<close>; the stack may be undefined), \<^verbatim>\<open>isDate\<close>, \<^verbatim>\<open>isRegExp\<close>
  (given by \<^verbatim>\<open>source\<close> and \<^verbatim>\<open>flags\<close>; \<^verbatim>\<open>lastIndex\<close> is not part of the model),
  \<^verbatim>\<open>Array.isArray\<close> (given by what \<^verbatim>\<open>value[i]\<close> reads for \<open>i\<close> below the length, so that a
  hole is the \<^verbatim>\<open>undefined\<close> it reads as), a function, and any other object: one on which
  all four tests fail, given by its own enumerable string-keyed properties in the order
  \<^verbatim>\<open>Object.keys\<close> reports them.
\<close>

datatype obj =
    OError string string "string option"
  | ODate date
  | ORegExp string string
  | OArray "val list"
  | OObject "(string \<times> val) list"
  | OFunction

type_synonym heap = "obj list"

definition lookup :: "heap \<Rightarrow> addr \<Rightarrow> obj option" where
  "lookup h a = (if a < length h then Some (h ! a) else None)"

section \<open>Wire values\<close>

text \<open>
  \<^verbatim>\<open>SerializedValue\<close> is one object type with nine optional fields
  \<^verbatim>\<open>{ n?, s?, b?, v?, d?, r?: {p, f}, a?, o?: {k, v}[], h? }\<close>; \<open>None\<close> is an absent field.
  The \<^verbatim>\<open>d\<close> field holds what \<^verbatim>\<open>toJSON()\<close> returned, a string or \<^verbatim>\<open>null\<close> (the inner \<open>None\<close>).
\<close>

datatype serializedValue =
  SerializedValue
    (sv_n: "number option")
    (sv_s: "string option")
    (sv_b: "bool option")
    (sv_v: "string option")
    (sv_d: "string option option")
    (sv_r: "(string \<times> string) option")
    (sv_a: "serializedValue list option")
    (sv_o: "(string \<times> serializedValue) list option")
    (sv_h: "int option")

definition noFields :: serializedValue where
  "noFields = SerializedValue None None None None None None None None None"

definition tagN :: "number \<Rightarrow> serializedValue" where
  "tagN x = SerializedValue (Some x) None None None None None None None None"

definition tagS :: "string \<Rightarrow> serializedValue" where
  "tagS x = SerializedValue None (Some x) None None None None None None None"

definition tagB :: "bool \<Rightarrow> serializedValue" where
  "tagB x = SerializedValue None None (Some x) None None None None None None"

definition tagV :: "string \<Rightarrow> serializedValue" where
  "tagV x = SerializedValue None None None (Some x) None None None None None"

definition tagD :: "string option \<Rightarrow> serializedValue" where
  "tagD x = SerializedValue None None None None (Some x) None None None None"

definition tagR :: "string \<Rightarrow> string \<Rightarrow> serializedValue" where
  "tagR p f = SerializedValue None None None None None (Some (p, f)) None None None"

definition tagA :: "serializedValue list \<Rightarrow> serializedValue" where
  "tagA xs = SerializedValue None None None None None None (Some xs) None None"

definition tagO :: "(string \<times> serializedValue) list \<Rightarrow> serializedValue" where
  "tagO ps = SerializedValue None None None None None None None (Some ps) None"

definition tagH :: "int \<Rightarrow> serializedValue" where
  "tagH k = SerializedValue None None None None None None None None (Some k)"

text \<open>
  The errors of a run. The first four are thrown by the code, with the messages below.
  The last three are thrown by the engine under it: the RangeError of a call that the
  call stack has no room for, the SyntaxError of \<^verbatim>\<open>new RegExp\<close> on a pattern or flags it
  rejects, and the TypeError of an assignment that an inherited property forbids.
\<close>

datatype error =
    CircularStructure
  | UnexpectedValue
  | UnexpectedHandle
  | MissingErrorOrValue
  | CallStackExceeded
  | InvalidRegExp
  | CannotAssign

fun errorMessage :: "error \<Rightarrow> string" where
  "errorMessage CircularStructure = ''Argument is a circular structure''"
| "errorMessage UnexpectedValue = ''Unexpected value''"
| "errorMessage UnexpectedHandle = ''Unexpected handle''"
| "errorMessage MissingErrorOrValue = ''Serialized error must have either an error or a value''"
| "errorMessage CallStackExceeded = ''Maximum call stack size exceeded''"
| "errorMessage InvalidRegExp = ''Invalid regular expression''"
| "errorMessage CannotAssign = ''Cannot set property''"

section \<open>The encoder\<close>

text \<open>\<^verbatim>\<open>HandleOrValue = { h: number } | { fallThrough: any }\<close>\<close>

datatype handleOrValue = Handle int | FallThrough val

text \<open>
  The visited set is a JavaScript \<^verbatim>\<open>Set\<close>: membership is by SameValueZero, which finds
  negative zero under the key positive zero. Only arrays and objects are ever added.
\<close>

fun setKey :: "val \<Rightarrow> val" where
  "setKey (VNum NegZero) = VNum (Finite 0)"
| "setKey x = x"

definition visited_has :: "val set \<Rightarrow> val \<Rightarrow> bool" where
  "visited_has visited x = (setKey x \<in> visited)"

definition visited_add :: "val set \<Rightarrow> val \<Rightarrow> val set" where
  "visited_add visited x = insert (setKey x) visited"

definition visited_delete :: "val set \<Rightarrow> val \<Rightarrow> val set" where
  "visited_delete visited x = visited - {setKey x}"

text \<open>
  Date.prototype.toJSON: \<^verbatim>\<open>null\<close> for an invalid date, the ISO string otherwise.
\<close>

fun toJSON :: "date \<Rightarrow> string option" where
  "toJSON InvalidDate = None"
| "toJSON (ValidDate txt) = Some txt"

text \<open>
  The text an error-like object is flattened to. \<open>v8\<close> is the platform test
  \<^verbatim>\<open>'captureStackTrace' in global.Error\<close>; an undefined stack prints as \<^verbatim>\<open>undefined\<close> in the
  template string and is replaced by the empty string under \<^verbatim>\<open>||\<close>.
\<close>

definition orEmpty :: "string option \<Rightarrow> string" where
  "orEmpty s = (case s of None \<Rightarrow> [] | Some x \<Rightarrow> x)"

definition errorText :: "bool \<Rightarrow> string \<Rightarrow> string \<Rightarrow> string option \<Rightarrow> string" where
  "errorText v8 nm msg stk =
     (if v8 then orEmpty stk
      else nm @ '': '' @ msg @ [CHR 0x0A] @ (case stk of None \<Rightarrow> ''undefined'' | Some x \<Rightarrow> x))"

text \<open>
  \<^verbatim>\<open>serializeValue(value, handleSerializer, visited)\<close>. The code recurses once for every
  level of nesting, and the engine's call stack is finite: \<open>stack\<close> is the number of nested
  calls of \<open>serializeValue\<close> the call stack still has room for below the running one (the
  engine fixes it; the helpers a call uses are taken to fit). A recursive call made when
  there is no room throws the engine's RangeError.
  A run is the returned value or the thrown error, paired with the visited set as the run
  left it; the set is one mutable object shared by the whole recursion, so what a throwing
  call leaves in it is what its caller finds.
  The two loops are \<open>serializeElements\<close> (over \<^verbatim>\<open>value[i]\<close>) and \<open>serializeProperties\<close>
  (over \<^verbatim>\<open>Object.keys(value)\<close>); a throw inside a loop leaves it before \<^verbatim>\<open>visited.delete\<close>.
\<close>

fun serializeValue ::
    "nat \<Rightarrow> bool \<Rightarrow> heap \<Rightarrow> (val \<Rightarrow> handleOrValue) \<Rightarrow> val \<Rightarrow> val set
      \<Rightarrow> (error + serializedValue) \<times> val set"
  and serializeElements ::
    "nat \<Rightarrow> bool \<Rightarrow> heap \<Rightarrow> (val \<Rightarrow> handleOrValue) \<Rightarrow> val list \<Rightarrow> val set
      \<Rightarrow> (error + serializedValue list) \<times> val set"
  and serializeProperties ::
    "nat \<Rightarrow> bool \<Rightarrow> heap \<Rightarrow> (val \<Rightarrow> handleOrValue) \<Rightarrow> (string \<times> val) list \<Rightarrow> val set
      \<Rightarrow> (error + (string \<times> serializedValue) list) \<times> val set"
where
  "serializeValue stack v8 h handleSerializer x visited =
     (case handleSerializer x of
        Handle k \<Rightarrow> (Inr (tagH k), visited)
      | FallThrough y \<Rightarrow>
          if visited_has visited y then (Inl CircularStructure, visited)
          else
            (case y of
               VSymbol _ \<Rightarrow> (Inr (tagV ''undefined''), visited)
             | VUndefined \<Rightarrow> (Inr (tagV ''undefined''), visited)
             | VNull \<Rightarrow> (Inr (tagV ''null''), visited)
             | VNum NaN \<Rightarrow> (Inr (tagV ''NaN''), visited)
             | VNum PosInfinity \<Rightarrow> (Inr (tagV ''Infinity''), visited)
             | VNum NegInfinity \<Rightarrow> (Inr (tagV ''-Infinity''), visited)
             | VNum NegZero \<Rightarrow> (Inr (tagV ''-0''), visited)
             | VBool b \<Rightarrow> (Inr (tagB b), visited)
             | VNum (Finite q) \<Rightarrow> (Inr (tagN (Finite q)), visited)
             | VStr s \<Rightarrow> (Inr (tagS s), visited)
             | VBigInt _ \<Rightarrow> (Inl UnexpectedValue, visited)
             | VRef a \<Rightarrow>
                 (case lookup h a of
                    None \<Rightarrow> (Inl UnexpectedValue, visited)
                  | Some (OError nm msg stk) \<Rightarrow> (Inr (tagS (errorText v8 nm msg stk)), visited)
                  | Some (ODate dt) \<Rightarrow> (Inr (tagD (toJSON dt)), visited)
                  | Some (ORegExp p f) \<Rightarrow> (Inr (tagR p f), visited)
                  | Some (OArray xs) \<Rightarrow>
                      (case serializeElements stack v8 h handleSerializer xs (visited_add visited y) of
                         (Inl e, visited') \<Rightarrow> (Inl e, visited')
                       | (Inr a, visited') \<Rightarrow> (Inr (tagA a), visited_delete visited' y))
                  | Some (OObject ps) \<Rightarrow>
                      (case serializeProperties stack v8 h handleSerializer ps (visited_add visited y) of
                         (Inl e, visited') \<Rightarrow> (Inl e, visited')
                       | (Inr ob, visited') \<Rightarrow> (Inr (tagO ob), visited_delete visited' y))
                  | Some OFunction \<Rightarrow> (Inl UnexpectedValue, visited))))"
| "serializeElements stack v8 h handleSerializer [] visited = (Inr [], visited)"
| "serializeElements 0 v8 h handleSerializer (x # xs) visited = (Inl CallStackExceeded, visited)"
| "serializeElements (Suc stack) v8 h handleSerializer (x # xs) visited =
     (case serializeValue stack v8 h handleSerializer x visited of
        (Inl e, visited') \<Rightarrow> (Inl e, visited')
      | (Inr s, visited') \<Rightarrow>
          (case serializeElements (Suc stack) v8 h handleSerializer xs visited' of
             (Inl e, visited'') \<Rightarrow> (Inl e, visited'')
           | (Inr ss, visited'') \<Rightarrow> (Inr (s # ss), visited'')))"
| "serializeProperties stack v8 h handleSerializer [] visited = (Inr [], visited)"
| "serializeProperties 0 v8 h handleSerializer ((k, x) # ps) visited =
     (Inl CallStackExceeded, visited)"
| "serializeProperties (Suc stack) v8 h handleSerializer ((k, x) # ps) visited =
     (case serializeValue stack v8 h handleSerializer x visited of
        (Inl e, visited') \<Rightarrow> (Inl e, visited')
      | (Inr s, visited') \<Rightarrow>
          (case serializeProperties (Suc stack) v8 h handleSerializer ps visited' of
             (Inl e, visited'') \<Rightarrow> (Inl e, visited'')
           | (Inr ss, visited'') \<Rightarrow> (Inr ((k, s) # ss), visited'')))"

section \<open>The decoder\<close>

text \<open>
  What the decoder returns. A primitive, or an entry of the handle table, is a native
  value as it stands. Dates, regular expressions, arrays and objects are built anew by
  every call, so they are given by their contents rather than by a heap address. An
  object is given by its prototype and by its own properties in the order in which the
  decoder created them (which is not the order of enumeration when keys look like
  integers). \<open>FreshError\<close> is what \<^verbatim>\<open>parseError\<close> constructs: the class, the message and the
  stack.
\<close>

datatype errorClass = ErrorClass | TimeoutErrorClass

datatype 'a prototype = ObjectPrototype | NullPrototype | OtherPrototype 'a

datatype decoded =
    Native val
  | FreshDate date
  | FreshRegExp string string
  | FreshArray "decoded list"
  | FreshObject "decoded prototype" "(string \<times> decoded) list"
  | FreshError errorClass string string

text \<open>
  What the decoder asks of the engine, beyond the language's fixed rules. \<open>dateParse\<close> is
  the date \<^verbatim>\<open>new Date(text)\<close> makes of a string; \<open>regExpValid\<close> tells whether
  \<^verbatim>\<open>new RegExp(p, f)\<close> accepts the pattern and flags; \<open>assignUnder\<close> is what \<^verbatim>\<open>result[k] = x\<close>
  does to an object whose prototype has been replaced by another object: it depends on
  the accessors and read-only properties that object inherits, and is the new prototype
  and properties, or \<open>None\<close> for the TypeError of a refused assignment. Every statement
  below holds for every engine.
\<close>

record builtins =
  dateParse :: "string \<Rightarrow> date"
  regExpValid :: "string \<Rightarrow> string \<Rightarrow> bool"
  assignUnder ::
    "decoded \<Rightarrow> (string \<times> decoded) list \<Rightarrow> string \<Rightarrow> decoded
      \<Rightarrow> (decoded prototype \<times> (string \<times> decoded) list) option"

text \<open>
  \<^verbatim>\<open>new Date(value.d)\<close>: \<^verbatim>\<open>null\<close> converts to the time value 0, the epoch; a string is
  parsed.
\<close>

fun newDate :: "builtins \<Rightarrow> string option \<Rightarrow> date" where
  "newDate engine None = ValidDate ''1970-01-01T00:00:00.000Z''"
| "newDate engine (Some txt) = dateParse engine txt"

text \<open>
  \<^verbatim>\<open>result[k] = x\<close>. On an object that has the property, or that inherits nothing which
  intercepts the key, the property is overwritten, or created last: \<open>setOwn\<close>. An object
  made by \<^verbatim>\<open>{}\<close> inherits one accessor, \<^verbatim>\<open>__proto__\<close>: assigning to that key creates no
  property; it replaces the prototype when the value is an object or \<^verbatim>\<open>null\<close>, and does
  nothing otherwise. After \<^verbatim>\<open>null\<close> nothing is inherited any more.
\<close>

fun setOwn :: "(string \<times> 'a) list \<Rightarrow> string \<Rightarrow> 'a \<Rightarrow> (string \<times> 'a) list" where
  "setOwn [] k x = [(k, x)]"
| "setOwn ((k', y) # ps) k x =
     (if k' = k then (k, x) # ps else (k', y) # setOwn ps k x)"

definition isObject :: "decoded \<Rightarrow> bool" where
  "isObject d = (case d of Native (VRef _) \<Rightarrow> True | Native _ \<Rightarrow> False | _ \<Rightarrow> True)"

definition setProperty ::
    "builtins \<Rightarrow> decoded prototype \<times> (string \<times> decoded) list \<Rightarrow> string \<Rightarrow> decoded
      \<Rightarrow> error + decoded prototype \<times> (string \<times> decoded) list" where
  "setProperty engine result k x =
     (case fst result of
        ObjectPrototype \<Rightarrow>
          if k = ''__proto__''
          then
            (if isObject x then Inr (OtherPrototype x, snd result)
             else if x = Native VNull then Inr (NullPrototype, snd result)
             else Inr result)
          else Inr (ObjectPrototype, setOwn (snd result) k x)
      | NullPrototype \<Rightarrow> Inr (NullPrototype, setOwn (snd result) k x)
      | OtherPrototype p \<Rightarrow>
          (case assignUnder engine p (snd result) k x of
             None \<Rightarrow> Inl CannotAssign
           | Some result' \<Rightarrow> Inr result'))"

text \<open>The chain of comparisons on \<^verbatim>\<open>value.v\<close>; \<open>None\<close> when no literal matches.\<close>

definition parseSpecial :: "string \<Rightarrow> val option" where
  "parseSpecial v =
     (if v = ''undefined'' then Some VUndefined
      else if v = ''null'' then Some VNull
      else if v = ''NaN'' then Some (VNum NaN)
      else if v = ''Infinity'' then Some (VNum PosInfinity)
      else if v = ''-Infinity'' then Some (VNum NegInfinity)
      else if v = ''-0'' then Some (VNum NegZero)
      else None)"

text \<open>\<^verbatim>\<open>handles[value.h]\<close>: reading an array outside its indices gives \<^verbatim>\<open>undefined\<close>.\<close>

definition handleAt :: "val list \<Rightarrow> int \<Rightarrow> val" where
  "handleAt handles k =
     (if 0 \<le> k \<and> nat k < length handles then handles ! nat k else VUndefined)"

text \<open>
  \<^verbatim>\<open>parseSerializedValue(value, handles)\<close>; \<open>handles = None\<close> is \<^verbatim>\<open>undefined\<close>, and \<open>stack\<close> is
  the room of the call stack, as for the encoder. \<open>parseElements\<close> is the \<^verbatim>\<open>map\<close> over
  \<^verbatim>\<open>value.a\<close> and \<open>parseProperties\<close> the loop over \<^verbatim>\<open>value.o\<close>, which carries the object built
  so far; both stop at the first throw.
\<close>

fun parseSerializedValue ::
    "nat \<Rightarrow> builtins \<Rightarrow> serializedValue \<Rightarrow> val list option \<Rightarrow> error + decoded"
  and parseElements ::
    "nat \<Rightarrow> builtins \<Rightarrow> serializedValue list \<Rightarrow> val list option \<Rightarrow> error + decoded list"
  and parseProperties ::
    "nat \<Rightarrow> builtins \<Rightarrow> (string \<times> serializedValue) list \<Rightarrow> val list option
      \<Rightarrow> decoded prototype \<times> (string \<times> decoded) list
      \<Rightarrow> error + decoded prototype \<times> (string \<times> decoded) list"
where
  "parseSerializedValue stack engine (SerializedValue n s b v d r a ob hk) handles =
     (case n of Some x \<Rightarrow> Inr (Native (VNum x)) | None \<Rightarrow>
     (case s of Some x \<Rightarrow> Inr (Native (VStr x)) | None \<Rightarrow>
     (case b of Some x \<Rightarrow> Inr (Native (VBool x)) | None \<Rightarrow>
     (case (case v of None \<Rightarrow> None | Some x \<Rightarrow> parseSpecial x) of
        Some y \<Rightarrow> Inr (Native y) | None \<Rightarrow>
     (case d of Some x \<Rightarrow> Inr (FreshDate (newDate engine x)) | None \<Rightarrow>
     (case r of
        Some (p, f) \<Rightarrow> if regExpValid engine p f then Inr (FreshRegExp p f) else Inl InvalidRegExp
      | None \<Rightarrow>
     (case a of
        Some xs \<Rightarrow>
          (case parseElements stack engine xs handles of
             Inl e \<Rightarrow> Inl e
           | Inr ys \<Rightarrow> Inr (FreshArray ys))
      | None \<Rightarrow>
     (case ob of
        Some ps \<Rightarrow>
          (case parseProperties stack engine ps handles (ObjectPrototype, []) of
             Inl e \<Rightarrow> Inl e
           | Inr result \<Rightarrow> Inr (FreshObject (fst result) (snd result)))
      | None \<Rightarrow>
     (case hk of
        Some k \<Rightarrow>
          (case handles of
             None \<Rightarrow> Inl UnexpectedHandle
           | Some table \<Rightarrow> Inr (Native (handleAt table k)))
      | None \<Rightarrow> Inl UnexpectedValue)))))))))"
| "parseElements stack engine [] handles = Inr []"
| "parseElements 0 engine (x # xs) handles = Inl CallStackExceeded"
| "parseElements (Suc stack) engine (x # xs) handles =
     (case parseSerializedValue stack engine x handles of
        Inl e \<Rightarrow> Inl e
      | Inr y \<Rightarrow>
          (case parseElements (Suc stack) engine xs handles of
             Inl e \<Rightarrow> Inl e
           | Inr ys \<Rightarrow> Inr (y # ys)))"
| "parseProperties stack engine [] handles result = Inr result"
| "parseProperties 0 engine ((k, x) # ps) handles result = Inl CallStackExceeded"
| "parseProperties (Suc stack) engine ((k, x) # ps) handles result =
     (case parseSerializedValue stack engine x handles of
        Inl e \<Rightarrow> Inl e
      | Inr y \<Rightarrow>
          (case setProperty engine result k y of
             Inl e \<Rightarrow> Inl e
           | Inr result' \<Rightarrow> parseProperties (Suc stack) engine ps handles result'))"

section \<open>The error adapter\<close>

text \<open>
  \<^verbatim>\<open>SerializedError = { error?: { message, stack?, name }, value?: SerializedValue }\<close>
\<close>

record errorInfo =
  err_message :: string
  err_stack :: "string option"
  err_name :: string

record serializedError =
  se_error :: "errorInfo option"
  se_value :: "serializedValue option"

text \<open>
  Modelled from the spec: \<^verbatim>\<open>helper.isError\<close> lives in \<^verbatim>\<open>../helper\<close>; the spec calls what it
  accepts error-like, which is what the \<^verbatim>\<open>isError\<close> of this file tests. \<open>errorLike\<close> gives
  the name, message and stack of an error-like value.
\<close>

definition errorLike :: "heap \<Rightarrow> val \<Rightarrow> (string \<times> string \<times> string option) option" where
  "errorLike h e =
     (case e of
        VRef a \<Rightarrow> (case lookup h a of Some (OError nm msg stk) \<Rightarrow> Some (nm, msg, stk) | _ \<Rightarrow> None)
      | _ \<Rightarrow> None)"

text \<open>The resolver \<^verbatim>\<open>value => ({ fallThrough: value })\<close>.\<close>

definition passThrough :: "val \<Rightarrow> handleOrValue" where
  "passThrough x = FallThrough x"

text \<open>
  \<^verbatim>\<open>serializeError(e)\<close>. The visited set is \<^verbatim>\<open>new Set()\<close>, made for the call and dropped
  after it.
\<close>

definition serializeError :: "nat \<Rightarrow> bool \<Rightarrow> heap \<Rightarrow> val \<Rightarrow> error + serializedError" where
  "serializeError stack v8 h e =
     (case errorLike h e of
        Some (nm, msg, stk) \<Rightarrow>
          Inr \<lparr>se_error = Some \<lparr>err_message = msg, err_stack = stk, err_name = nm\<rparr>,
               se_value = None\<rparr>
      | None \<Rightarrow>
          (case fst (serializeValue stack v8 h passThrough e {}) of
             Inl err \<Rightarrow> Inl err
           | Inr s \<Rightarrow> Inr \<lparr>se_error = None, se_value = Some s\<rparr>))"

text \<open>
  \<^verbatim>\<open>parseError(error)\<close>. Modelled from the spec: \<^verbatim>\<open>TimeoutError\<close> lives in \<^verbatim>\<open>../errors\<close>; the
  spec calls it the timeout-specific error kind, built from a message like \<^verbatim>\<open>Error\<close>.
\<close>

definition parseError :: "nat \<Rightarrow> builtins \<Rightarrow> serializedError \<Rightarrow> error + decoded" where
  "parseError stack engine payload =
     (case se_error payload of
        None \<Rightarrow>
          (case se_value payload of
             None \<Rightarrow> Inl MissingErrorOrValue
           | Some x \<Rightarrow> parseSerializedValue stack engine x None)
      | Some info \<Rightarrow>
          if err_name info = ''TimeoutError''
          then Inr (FreshError TimeoutErrorClass (err_message info) (orEmpty (err_stack info)))
          else Inr (FreshError ErrorClass (err_message info) (orEmpty (err_stack info))))"

section \<open>Structural equality and the shapes of native values\<close>

text \<open>
  A native value and a decoded one are structurally equal when they are the same
  primitive (or the same object, for a handle table entry), or objects of the same kind
  with equal contents: the same date, the same source and flags, structurally equal
  elements in the same order, and for an object the ordinary prototype and the same keys,
  each once, with structurally equal values.
\<close>

fun className :: "errorClass \<Rightarrow> string" where
  "className ErrorClass = ''Error''"
| "className TimeoutErrorClass = ''TimeoutError''"

fun structEq :: "heap \<Rightarrow> val \<Rightarrow> decoded \<Rightarrow> bool"
  and structEqElements :: "heap \<Rightarrow> val list \<Rightarrow> decoded list \<Rightarrow> bool"
  and structEqProperties :: "heap \<Rightarrow> (string \<times> val) list \<Rightarrow> (string \<times> decoded) list \<Rightarrow> bool"
where
  "structEq h x (Native y) = (x = y)"
| "structEq h x (FreshDate dt) =
     (case x of VRef a \<Rightarrow> lookup h a = Some (ODate dt) | _ \<Rightarrow> False)"
| "structEq h x (FreshRegExp p f) =
     (case x of VRef a \<Rightarrow> lookup h a = Some (ORegExp p f) | _ \<Rightarrow> False)"
| "structEq h x (FreshArray ys) =
     (case x of
        VRef a \<Rightarrow> (case lookup h a of Some (OArray xs) \<Rightarrow> structEqElements h xs ys | _ \<Rightarrow> False)
      | _ \<Rightarrow> False)"
| "structEq h x (FreshObject pr qs) =
     (case x of
        VRef a \<Rightarrow>
          (case lookup h a of
             Some (OObject ps) \<Rightarrow>
               pr = ObjectPrototype \<and> distinct (map fst qs)
               \<and> set (map fst qs) = set (map fst ps) \<and> structEqProperties h ps qs
           | _ \<Rightarrow> False)
      | _ \<Rightarrow> False)"
| "structEq h x (FreshError c msg stk) =
     (case x of
        VRef a \<Rightarrow>
          (case lookup h a of
             Some (OError nm m s) \<Rightarrow> nm = className c \<and> m = msg \<and> orEmpty s = stk
           | _ \<Rightarrow> False)
      | _ \<Rightarrow> False)"
| "structEqElements h [] ys = (ys = [])"
| "structEqElements h (x # xs) ys =
     (case ys of [] \<Rightarrow> False | y # ys' \<Rightarrow> structEq h x y \<and> structEqElements h xs ys')"
| "structEqProperties h ps [] = True"
| "structEqProperties h ps ((k, y) # qs) =
     ((case map_of ps k of None \<Rightarrow> False | Some x \<Rightarrow> structEq h x y)
      \<and> structEqProperties h ps qs)"

text \<open>
  \<open>dataValue okLeaf n h x\<close>: the value \<open>x\<close> is built, in fewer than \<open>n\<close> levels of nesting,
  from numbers, strings, booleans, null, undefined, dates and regular expressions
  satisfying \<open>okLeaf\<close>, arrays, and plain objects whose keys are distinct, as an object's
  are, and none of them \<^verbatim>\<open>__proto__\<close>. A value that contains itself has no such \<open>n\<close>.
\<close>

fun dataValue :: "(obj \<Rightarrow> bool) \<Rightarrow> nat \<Rightarrow> heap \<Rightarrow> val \<Rightarrow> bool" where
  "dataValue okLeaf 0 h x = False"
| "dataValue okLeaf (Suc n) h x =
     (case x of
        VSymbol _ \<Rightarrow> False
      | VBigInt _ \<Rightarrow> False
      | VRef a \<Rightarrow>
          (case lookup h a of
             Some (ODate dt) \<Rightarrow> okLeaf (ODate dt)
           | Some (ORegExp p f) \<Rightarrow> okLeaf (ORegExp p f)
           | Some (OArray xs) \<Rightarrow> list_all (dataValue okLeaf n h) xs
           | Some (OObject ps) \<Rightarrow>
               distinct (map fst ps) \<and> ''__proto__'' \<notin> set (map fst ps)
               \<and> list_all (dataValue okLeaf n h) (map snd ps)
           | _ \<Rightarrow> False)
      | _ \<Rightarrow> True)"

text \<open>
  \<open>anyLeaf\<close> admits every date and regular expression. \<open>writtenBack\<close> admits those the
  engine reads back from what the encoder writes: a valid date whose ISO string
  \<^verbatim>\<open>new Date\<close> parses to that date, and a source and flags that \<^verbatim>\<open>new RegExp\<close> accepts, as
  the language requires of the ISO string of a date and of the source and flags of a
  regular expression.
\<close>

definition anyLeaf :: "obj \<Rightarrow> bool" where
  "anyLeaf ob = True"

definition writtenBack :: "builtins \<Rightarrow> obj \<Rightarrow> bool" where
  "writtenBack engine ob =
     (case ob of
        ODate dt \<Rightarrow> (case dt of InvalidDate \<Rightarrow> False | ValidDate txt \<Rightarrow> dateParse engine txt = dt)
      | ORegExp p f \<Rightarrow> regExpValid engine p f
      | _ \<Rightarrow> True)"

text \<open>
  \<open>nonCyclic n h x\<close>: following array elements and property values from \<open>x\<close> ends within
  \<open>n\<close> levels; no object below \<open>x\<close> contains itself or an ancestor.
\<close>

fun nonCyclic :: "nat \<Rightarrow> heap \<Rightarrow> val \<Rightarrow> bool" where
  "nonCyclic 0 h x = False"
| "nonCyclic (Suc n) h x =
     (case x of
        VRef a \<Rightarrow>
          (case lookup h a of
             Some (OArray xs) \<Rightarrow> list_all (nonCyclic n h) xs
           | Some (OObject ps) \<Rightarrow> list_all (nonCyclic n h) (map snd ps)
           | _ \<Rightarrow> True)
      | _ \<Rightarrow> True)"

text \<open>
  A value the encoder's chain of tests classifies: not a bigint, not a function, and a
  reference to an object that exists. A heap is classifiable when every element and
  property value in it is; this is the codec's stated domain, functions being rejected
  before they reach it.
\<close>

definition classifiableVal :: "heap \<Rightarrow> val \<Rightarrow> bool" where
  "classifiableVal h x =
     (case x of
        VBigInt _ \<Rightarrow> False
      | VRef a \<Rightarrow> (case lookup h a of None \<Rightarrow> False | Some OFunction \<Rightarrow> False | Some _ \<Rightarrow> True)
      | _ \<Rightarrow> True)"

definition classifiableObj :: "heap \<Rightarrow> obj \<Rightarrow> bool" where
  "classifiableObj h ob =
     (case ob of
        OArray xs \<Rightarrow> list_all (classifiableVal h) xs
      | OObject ps \<Rightarrow> list_all (classifiableVal h) (map snd ps)
      | _ \<Rightarrow> True)"

definition classifiable :: "heap \<Rightarrow> bool" where
  "classifiable h = list_all (classifiableObj h) h"

text \<open>Arrays nested \<open>d\<close> deep: cell 0 is \<^verbatim>\<open>[]\<close> and cell \<open>i + 1\<close> is the array holding cell \<open>i\<close>.\<close>

fun nestedHeap :: "nat \<Rightarrow> heap" where
  "nestedHeap 0 = [OArray []]"
| "nestedHeap (Suc d) = nestedHeap d @ [OArray [VRef d]]"

fun nestedValue :: "nat \<Rightarrow> serializedValue" where
  "nestedValue 0 = SerializedValue None None None None None None (Some []) None None"
| "nestedValue (Suc d) =
     SerializedValue None None None None None None (Some [nestedValue d]) None None"

section \<open>Notions used in the statements and proofs\<close>

text \<open>
  A container is a value the encoder descends into: a reference to an array or to an
  object of the last kind. Every other value is a leaf, encoded without recursion;
  \<open>leafResult\<close> is what the encoder makes of a leaf.
\<close>

definition container :: "heap \<Rightarrow> val \<Rightarrow> bool" where
  "container h y =
     (case y of
        VRef a \<Rightarrow> (case lookup h a of Some (OArray _) \<Rightarrow> True | Some (OObject _) \<Rightarrow> True | _ \<Rightarrow> False)
      | _ \<Rightarrow> False)"

definition leafResult :: "bool \<Rightarrow> heap \<Rightarrow> val \<Rightarrow> error + serializedValue" where
  "leafResult v8 h y = fst (serializeValue 0 v8 h passThrough y {})"

text \<open>An array that has itself as an element, an object that has itself as a property value.\<close>

definition selfReferential :: "heap \<Rightarrow> addr \<Rightarrow> bool" where
  "selfReferential h a =
     (case lookup h a of
        Some (OArray xs) \<Rightarrow> VRef a \<in> set xs
      | Some (OObject ps) \<Rightarrow> VRef a \<in> set (map snd ps)
      | _ \<Rightarrow> False)"

text \<open>
  \<open>encodable n h x\<close>: \<open>x\<close> is classifiable, and so is everything below it, which ends within
  \<open>n\<close> levels. These are the values the encoder returns a value for.
\<close>

fun encodable :: "nat \<Rightarrow> heap \<Rightarrow> val \<Rightarrow> bool" where
  "encodable 0 h x = False"
| "encodable (Suc n) h x =
     (classifiableVal h x \<and>
      (case x of
         VRef a \<Rightarrow>
           (case lookup h a of
              Some (OArray xs) \<Rightarrow> list_all (encodable n h) xs
            | Some (OObject ps) \<Rightarrow> list_all (encodable n h) (map snd ps)
            | _ \<Rightarrow> True)
       | _ \<Rightarrow> True))"

section \<open>One step of the encoder\<close>

lemma passThrough_apply: "passThrough x = FallThrough x"
  by (simp add: passThrough_def)

lemma setKey_VRef [simp]: "setKey (VRef a) = VRef a"
  by simp

lemma setKey_eq_VRef [simp]: "(setKey y = VRef a) = (y = VRef a)"
  by (cases y rule: setKey.cases) auto

lemma serializeValue_handle:
  "hs x = Handle k \<Longrightarrow> serializeValue stk v8 h hs x vis = (Inr (tagH k), vis)"
  by simp

lemma serializeValue_circular:
  "hs x = FallThrough y \<Longrightarrow> visited_has vis y \<Longrightarrow>
   serializeValue stk v8 h hs x vis = (Inl CircularStructure, vis)"
  by simp

lemma serializeValue_array:
  "hs x = FallThrough (VRef a) \<Longrightarrow> VRef a \<notin> vis \<Longrightarrow> lookup h a = Some (OArray xs) \<Longrightarrow>
   serializeValue stk v8 h hs x vis =
     (case serializeElements stk v8 h hs xs (insert (VRef a) vis) of
        (Inl e, vis') \<Rightarrow> (Inl e, vis')
      | (Inr ss, vis') \<Rightarrow> (Inr (tagA ss), vis' - {VRef a}))"
  by (simp add: visited_has_def visited_add_def visited_delete_def
      split: prod.splits sum.splits)

lemma serializeValue_object:
  "hs x = FallThrough (VRef a) \<Longrightarrow> VRef a \<notin> vis \<Longrightarrow> lookup h a = Some (OObject ps) \<Longrightarrow>
   serializeValue stk v8 h hs x vis =
     (case serializeProperties stk v8 h hs ps (insert (VRef a) vis) of
        (Inl e, vis') \<Rightarrow> (Inl e, vis')
      | (Inr ss, vis') \<Rightarrow> (Inr (tagO ss), vis' - {VRef a}))"
  by (simp add: visited_has_def visited_add_def visited_delete_def
      split: prod.splits sum.splits)

lemma serializeValue_leaf:
  "hs x = FallThrough y \<Longrightarrow> \<not> visited_has vis y \<Longrightarrow> \<not> container h y \<Longrightarrow>
   serializeValue stk v8 h hs x vis = (leafResult v8 h y, vis)"
  by (simp add: leafResult_def container_def passThrough_def visited_has_def
      split: val.splits number.splits option.splits obj.splits)


lemma serializeProperties_elements:
  "serializeProperties stk v8 h hs ps vis =
     (case serializeElements stk v8 h hs (map snd ps) vis of
        (Inl e, vis') \<Rightarrow> (Inl e, vis')
      | (Inr ss, vis') \<Rightarrow> (Inr (zip (map fst ps) ss), vis'))"
proof (induction ps arbitrary: vis)
  case Nil
  then show ?case by simp
next
  case (Cons p ps)
  then show ?case
    by (cases p; cases stk) (auto split: sum.splits prod.splits)
qed

declare serializeValue.simps(1) [simp del]

lemma serializeValue_cases [case_names handle circular leaf array object]:
  obtains
    k where "hs x = Handle k"
  | y where "hs x = FallThrough y" "visited_has vis y"
  | y where "hs x = FallThrough y" "\<not> visited_has vis y" "\<not> container h y"
  | a xs where "hs x = FallThrough (VRef a)" "VRef a \<notin> vis" "lookup h a = Some (OArray xs)"
  | a ps where "hs x = FallThrough (VRef a)" "VRef a \<notin> vis" "lookup h a = Some (OObject ps)"
proof (cases "hs x")
  case (Handle k)
  then show ?thesis using that(1) by blast
next
  case (FallThrough y)
  show ?thesis
  proof (cases "visited_has vis y")
    case True
    with FallThrough show ?thesis using that(2) by blast
  next
    case unvisited: False
    show ?thesis
    proof (cases "container h y")
      case False
      with FallThrough unvisited show ?thesis using that(3) by blast
    next
      case True
      then obtain a where y: "y = VRef a"
        by (auto simp: container_def split: val.splits)
      from unvisited y have fresh: "VRef a \<notin> vis"
        by (simp add: visited_has_def)
      from True y consider xs where "lookup h a = Some (OArray xs)"
        | ps where "lookup h a = Some (OObject ps)"
        by (auto simp: container_def split: option.splits obj.splits)
      then show ?thesis
        using FallThrough y fresh that(4,5) by cases blast+
    qed
  qed
qed

section \<open>The visited set\<close>

lemma serializeElements_visited:
  assumes vals: "\<And>s x vis r vis'. stk = Suc s \<Longrightarrow> serializeValue s v8 h hs x vis = (r, vis')
            \<Longrightarrow> (\<forall>t. r = Inr t \<longrightarrow> vis' = vis) \<and> vis \<subseteq> vis'"
  shows "serializeElements stk v8 h hs xs vis = (r, vis')
            \<Longrightarrow> (\<forall>t. r = Inr t \<longrightarrow> vis' = vis) \<and> vis \<subseteq> vis'"
proof (induction xs arbitrary: vis r vis')
  case Nil
  then show ?case by auto
next
  case (Cons x xs)
  show ?case
  proof (cases stk)
    case 0
    with Cons.prems show ?thesis by auto
  next
    case (Suc s)
    obtain r1 v1 where first: "serializeValue s v8 h hs x vis = (r1, v1)"
      by (cases "serializeValue s v8 h hs x vis")
    note k1 = vals [OF Suc first]
    show ?thesis
    proof (cases r1)
      case (Inl e)
      with Cons.prems first k1 Suc show ?thesis by auto
    next
      case (Inr t)
      with k1 have v1: "v1 = vis" by simp
      obtain r2 v2 where rest: "serializeElements stk v8 h hs xs vis = (r2, v2)"
        by (cases "serializeElements stk v8 h hs xs vis")
      from Cons.IH [OF rest] Cons.prems first Inr v1 rest Suc show ?thesis
        by (auto split: sum.splits)
    qed
  qed
qed

lemma serializeValue_visited:
  "serializeValue stk v8 h hs x vis = (r, vis')
     \<Longrightarrow> (\<forall>t. r = Inr t \<longrightarrow> vis' = vis) \<and> vis \<subseteq> vis'"
proof (induction stk arbitrary: x vis r vis' rule: less_induct)
  case (less stk)
  have elems: "(\<forall>t. r = Inr t \<longrightarrow> vis' = vis) \<and> vis \<subseteq> vis'"
    if "serializeElements stk v8 h hs xs vis = (r, vis')" for xs vis r vis'
    using _ that
  proof (rule serializeElements_visited)
    fix s x vis r vis'
    assume "stk = Suc s" "serializeValue s v8 h hs x vis = (r, vis')"
    then show "(\<forall>t. r = Inr t \<longrightarrow> vis' = vis) \<and> vis \<subseteq> vis'"
      using less.IH [of s] by simp
  qed
  show ?case
  proof (cases rule: serializeValue_cases [where hs = hs and x = x and vis = vis and h = h])
    case (handle k)
    with less.prems show ?thesis by (simp add: serializeValue_handle)
  next
    case (circular y)
    with less.prems show ?thesis by (simp add: serializeValue_circular)
  next
    case (leaf y)
    with less.prems show ?thesis by (simp add: serializeValue_leaf)
  next
    case (array a xs)
    obtain r1 v1
      where inner: "serializeElements stk v8 h hs xs (insert (VRef a) vis) = (r1, v1)"
      by (cases "serializeElements stk v8 h hs xs (insert (VRef a) vis)")
    from elems [OF inner] less.prems inner array(2) show ?thesis
      by (auto simp: serializeValue_array [where hs = hs and x = x, OF array] split: sum.splits)
  next
    case (object a ps)
    obtain r1 v1
      where inner: "serializeElements stk v8 h hs (map snd ps) (insert (VRef a) vis) = (r1, v1)"
      by (cases "serializeElements stk v8 h hs (map snd ps) (insert (VRef a) vis)")
    from elems [OF inner] less.prems inner object(2) show ?thesis
      by (auto simp: serializeValue_object [where hs = hs and x = x, OF object]
          serializeProperties_elements split: sum.splits)
  qed
qed

lemma serializeElements_visited_all:
  "serializeElements stk v8 h hs xs vis = (r, vis')
     \<Longrightarrow> (\<forall>t. r = Inr t \<longrightarrow> vis' = vis) \<and> vis \<subseteq> vis'"
  using serializeValue_visited by (rule serializeElements_visited)

lemma serializeValue_throw_keeps:
  assumes run: "serializeValue stk v8 h hs x vis = (Inl e, vis')"
    and pass: "hs x = FallThrough y" and box: "container h y"
  shows "y \<in> vis'"
proof (cases rule: serializeValue_cases [where hs = hs and x = x and vis = vis and h = h])
  case (handle k)
  with pass show ?thesis by simp
next
  case (circular z)
  with pass box have "y \<in> vis"
    by (auto simp: visited_has_def container_def split: val.splits)
  with serializeValue_visited [OF run] show ?thesis by auto
next
  case (leaf z)
  with pass box show ?thesis by simp
next
  case (array a xs)
  obtain r1 v1
    where inner: "serializeElements stk v8 h hs xs (insert (VRef a) vis) = (r1, v1)"
    by (cases "serializeElements stk v8 h hs xs (insert (VRef a) vis)")
  from serializeElements_visited_all [OF inner] run inner array(1) pass show ?thesis
    by (auto simp: serializeValue_array [where hs = hs and x = x, OF array] split: sum.splits)
next
  case (object a ps)
  obtain r1 v1
    where inner: "serializeElements stk v8 h hs (map snd ps) (insert (VRef a) vis) = (r1, v1)"
    by (cases "serializeElements stk v8 h hs (map snd ps) (insert (VRef a) vis)")
  from serializeElements_visited_all [OF inner] run inner object(1) pass show ?thesis
    by (auto simp: serializeValue_object [where hs = hs and x = x, OF object]
        serializeProperties_elements split: sum.splits)
qed

section \<open>Self-reference, the call stack and the kinds of error\<close>

lemma serializeElements_success:
  "serializeElements (Suc s) v8 h hs xs vis = (Inr ss, vis') \<longleftrightarrow>
     vis' = vis \<and> list_all2 (\<lambda>x t. serializeValue s v8 h hs x vis = (Inr t, vis)) xs ss"
proof (induction xs arbitrary: ss)
  case Nil
  then show ?case by auto
next
  case (Cons x xs)
  show ?case
  proof
    assume run: "serializeElements (Suc s) v8 h hs (x # xs) vis = (Inr ss, vis')"
    then obtain t v1 where first: "serializeValue s v8 h hs x vis = (Inr t, v1)"
      by (auto split: sum.splits prod.splits)
    then have v1: "v1 = vis"
      using serializeValue_visited by blast
    from run first v1 obtain ss' v2
      where rest: "serializeElements (Suc s) v8 h hs xs vis = (Inr ss', v2)"
        and ss: "ss = t # ss'" and v2: "v2 = vis'"
      by (auto split: sum.splits prod.splits)
    from rest Cons.IH [of ss'] first v1 ss v2
    show "vis' = vis \<and>
        list_all2 (\<lambda>x t. serializeValue s v8 h hs x vis = (Inr t, vis)) (x # xs) ss"
      by simp
  next
    assume "vis' = vis \<and>
        list_all2 (\<lambda>x t. serializeValue s v8 h hs x vis = (Inr t, vis)) (x # xs) ss"
    then obtain t ss' where ss: "ss = t # ss'" and v: "vis' = vis"
      and first: "serializeValue s v8 h hs x vis = (Inr t, vis)"
      and others: "list_all2 (\<lambda>x t. serializeValue s v8 h hs x vis = (Inr t, vis)) xs ss'"
      by (auto simp: list_all2_Cons1)
    from others have "serializeElements (Suc s) v8 h hs xs vis = (Inr ss', vis)"
      using Cons.IH [of ss'] v by simp
    with first ss v show "serializeElements (Suc s) v8 h hs (x # xs) vis = (Inr ss, vis')"
      by simp
  qed
qed


lemma serializeElements_fits:
  assumes vals: "\<And>s x w. stk = Suc s \<Longrightarrow> serializeValue s v8 h hs x vis \<noteq> (Inl CallStackExceeded, w)"
    and room: "xs = [] \<or> stk \<noteq> 0"
  shows "serializeElements stk v8 h hs xs vis \<noteq> (Inl CallStackExceeded, w)"
  using room
proof (induction xs)
  case Nil
  then show ?case by simp
next
  case (Cons x xs)
  then obtain s where s: "stk = Suc s" by (cases stk) auto
  obtain r v1 where first: "serializeValue s v8 h hs x vis = (r, v1)"
    by (cases "serializeValue s v8 h hs x vis")
  show ?case
  proof (cases r)
    case (Inl e)
    with first vals [OF s, of x v1] s show ?thesis by auto
  next
    case (Inr t)
    with first have "v1 = vis"
      using serializeValue_visited by blast
    with first Inr Cons.IH s show ?thesis
      by (auto split: sum.splits prod.splits)
  qed
qed

lemma unvisited_decreases:
  assumes "a < length h" and "VRef a \<notin> vis"
  shows "card {b. b < length h \<and> VRef b \<notin> insert (VRef a) vis}
       < card {b. b < length h \<and> VRef b \<notin> vis}"
proof (rule psubset_card_mono)
  show "finite {b. b < length h \<and> VRef b \<notin> vis}" by simp
  show "{b. b < length h \<and> VRef b \<notin> insert (VRef a) vis} \<subset> {b. b < length h \<and> VRef b \<notin> vis}"
    using assms by auto
qed

lemma unvisited_le_length: "card {b. b < length h \<and> VRef b \<notin> vis} \<le> length (h :: heap)"
proof -
  have "card {b. b < length h \<and> VRef b \<notin> vis} \<le> card {b. b < length h}"
    by (rule card_mono) auto
  then show ?thesis by simp
qed

lemma serializeValue_fits:
  "card {b. b < length h \<and> VRef b \<notin> vis} \<le> stk
     \<Longrightarrow> serializeValue stk v8 h hs x vis \<noteq> (Inl CallStackExceeded, w)"
proof (induction stk arbitrary: x vis w rule: less_induct)
  case (less stk)
  have inside: "serializeElements stk v8 h hs xs (insert (VRef a) vis) \<noteq> (Inl CallStackExceeded, u)"
    if cell: "a < length h" and out: "VRef a \<notin> vis" for a xs u
  proof (rule serializeElements_fits)
    from unvisited_decreases [OF cell out] less.prems
    have fewer: "card {b. b < length h \<and> VRef b \<notin> insert (VRef a) vis} < stk" by simp
    then show "xs = [] \<or> stk \<noteq> 0" by simp
    fix s x u
    assume "stk = Suc s"
    with fewer show "serializeValue s v8 h hs x (insert (VRef a) vis) \<noteq> (Inl CallStackExceeded, u)"
      by (intro less.IH) simp_all
  qed
  show ?case
  proof (cases rule: serializeValue_cases [where hs = hs and x = x and vis = vis and h = h])
    case (handle k)
    then show ?thesis by (simp add: serializeValue_handle)
  next
    case (circular y)
    then show ?thesis by (simp add: serializeValue_circular)
  next
    case (leaf y)
    then have "leafResult v8 h y \<noteq> Inl CallStackExceeded"
      by (auto simp: leafResult_def container_def passThrough_def visited_has_def
          serializeValue.simps(1) split: val.splits number.splits option.splits obj.splits)
    with leaf show ?thesis by (simp add: serializeValue_leaf)
  next
    case (array a xs)
    from array(3) have "a < length h"
      by (simp add: lookup_def split: if_splits)
    from inside [OF this array(2)] show ?thesis
      unfolding serializeValue_array [where hs = hs and x = x, OF array]
      by (auto split: sum.splits prod.splits)
  next
    case (object a ps)
    from object(3) have "a < length h"
      by (simp add: lookup_def split: if_splits)
    from inside [OF this object(2)] show ?thesis
      unfolding serializeValue_object [where hs = hs and x = x, OF object]
        serializeProperties_elements
      by (auto split: sum.splits prod.splits)
  qed
qed

lemma leafResult_classifiable:
  "classifiableVal h y \<Longrightarrow> \<not> container h y \<Longrightarrow> \<exists>t. leafResult v8 h y = Inr t"
  by (auto simp: leafResult_def container_def classifiableVal_def passThrough_def visited_has_def
      serializeValue.simps(1) split: val.splits number.splits option.splits obj.splits)

lemma classifiable_lookup:
  "classifiable h \<Longrightarrow> lookup h a = Some ob \<Longrightarrow> classifiableObj h ob"
  by (auto simp: classifiable_def lookup_def list_all_iff split: if_splits)

lemma classifiable_elements:
  "classifiable h \<Longrightarrow> lookup h a = Some (OArray xs) \<Longrightarrow> list_all (classifiableVal h) xs"
  using classifiable_lookup [of h a "OArray xs"] by (simp add: classifiableObj_def)

lemma classifiable_properties:
  "classifiable h \<Longrightarrow> lookup h a = Some (OObject ps) \<Longrightarrow> list_all (classifiableVal h) (map snd ps)"
  using classifiable_lookup [of h a "OObject ps"] by (simp add: classifiableObj_def)

lemma serializeElements_throws:
  assumes vals: "\<And>s x vis e vis'. stk = Suc s \<Longrightarrow> Q x \<Longrightarrow>
      serializeValue s v8 h hs x vis = (Inl e, vis') \<Longrightarrow> P e"
    and stack: "P CallStackExceeded"
  shows "list_all Q xs \<Longrightarrow> serializeElements stk v8 h hs xs vis = (Inl e, vis') \<Longrightarrow> P e"
proof (induction xs arbitrary: vis)
  case Nil
  then show ?case by simp
next
  case (Cons x xs)
  show ?case
  proof (cases stk)
    case 0
    with Cons.prems stack show ?thesis by simp
  next
    case (Suc s)
    with Cons show ?thesis
      using vals [OF Suc, of x vis] by (auto split: sum.splits prod.splits)
  qed
qed


lemma encoder_errors:
  "serializeValue stk v8 h hs x vis = (Inl e, vis') \<Longrightarrow>
     e = CircularStructure \<or> e = UnexpectedValue \<or> e = CallStackExceeded"
proof (induction stk arbitrary: x vis e vis' rule: less_induct)
  case (less stk)
  have elems: "e = CircularStructure \<or> e = UnexpectedValue \<or> e = CallStackExceeded"
    if "serializeElements stk v8 h hs xs vis = (Inl e, vis')" for xs vis e vis'
  proof -
    have "list_all (\<lambda>x. True) xs" by (simp add: list_all_iff)
    with _ _ show ?thesis using that
    proof (rule serializeElements_throws)
      fix s x vis e vis'
      assume "stk = Suc s" "serializeValue s v8 h hs x vis = (Inl e, vis')"
      then show "e = CircularStructure \<or> e = UnexpectedValue \<or> e = CallStackExceeded"
        using less.IH [of s x vis e vis'] by simp
    qed simp
  qed
  show ?case
  proof (cases rule: serializeValue_cases [where hs = hs and x = x and vis = vis and h = h])
    case (handle k)
    with less.prems show ?thesis by (simp add: serializeValue_handle)
  next
    case (circular y)
    with less.prems show ?thesis by (simp add: serializeValue_circular)
  next
    case (leaf y)
    then have "leafResult v8 h y = Inl e \<Longrightarrow> e = UnexpectedValue"
      by (auto simp: leafResult_def container_def passThrough_def visited_has_def
          serializeValue.simps(1) split: val.splits number.splits option.splits obj.splits)
    with leaf less.prems show ?thesis by (simp add: serializeValue_leaf)
  next
    case (array a xs)
    from less.prems elems show ?thesis
      unfolding serializeValue_array [where hs = hs and x = x, OF array]
      by (auto split: sum.splits prod.splits)
  next
    case (object a ps)
    from less.prems elems show ?thesis
      unfolding serializeValue_object [where hs = hs and x = x, OF object]
        serializeProperties_elements
      by (auto split: sum.splits prod.splits)
  qed
qed

section \<open>Values the encoder accepts\<close>

lemma encodable_Suc: "encodable n h x \<Longrightarrow> encodable (Suc n) h x"
proof (induction n arbitrary: x)
  case 0
  then show ?case by simp
next
  case (Suc n)
  have "list_all (encodable (Suc n) h) xs" if "list_all (encodable n h) xs" for xs
    using that Suc.IH by (simp add: list_all_iff)
  with Suc.prems show ?case
    by (auto split: val.splits option.splits obj.splits)
qed

lemma encodable_mono: "n \<le> m \<Longrightarrow> encodable n h x \<Longrightarrow> encodable m h x"
  by (induction rule: dec_induct) (simp_all add: encodable_Suc del: encodable.simps)

lemma encodable_setKey: "encodable n h (setKey x) = encodable n h x"
  by (cases x rule: setKey.cases; cases n) (simp_all add: classifiableVal_def)

lemma nonCyclic_encodable:
  "classifiable h \<Longrightarrow> classifiableVal h x \<Longrightarrow> nonCyclic n h x \<Longrightarrow> encodable n h x"
proof (induction n arbitrary: x)
  case 0
  then show ?case by simp
next
  case (Suc n)
  have step: "list_all (encodable n h) xs"
    if "list_all (classifiableVal h) xs" and "list_all (nonCyclic n h) xs" for xs
    using that Suc.IH [OF Suc.prems(1)] by (simp add: list_all_iff)
  show ?case
  proof (cases x)
    case (VRef a)
    show ?thesis
    proof (cases "lookup h a")
      case None
      with VRef Suc.prems show ?thesis by (simp add: classifiableVal_def)
    next
      case (Some ob)
      with VRef Suc.prems step classifiable_elements [of h a] classifiable_properties [of h a]
      show ?thesis by (cases ob) simp_all
    qed
  qed (use Suc.prems in simp_all)
qed

lemma dataValue_encodable: "dataValue okLeaf n h x \<Longrightarrow> encodable n h x"
proof (induction n arbitrary: x)
  case 0
  then show ?case by simp
next
  case (Suc n)
  have step: "list_all (encodable n h) xs" if "list_all (dataValue okLeaf n h) xs" for xs
    using that Suc.IH by (simp add: list_all_iff)
  from Suc.prems step show ?case
    by (auto simp: classifiableVal_def split: val.splits option.splits obj.splits)
qed

lemma list_all_choice:
  "list_all (\<lambda>x. \<exists>s. P x s) xs \<Longrightarrow> \<exists>ss. list_all2 P xs ss"
proof (induction xs)
  case Nil
  then show ?case by simp
next
  case (Cons x xs)
  then obtain s ss where "P x s" "list_all2 P xs ss" by auto
  then have "list_all2 P (x # xs) (s # ss)" by simp
  then show ?case by blast
qed

text \<open>
  An encodable value is encoded, to one and the same wire value whatever the room of the
  stack (if enough) and whatever the visited set, as long as nothing in the set is as
  shallow as the value itself: what the set holds during a run are ancestors, which are
  deeper.
\<close>

lemma encodable_encodes:
  "encodable n h x \<Longrightarrow>
   \<exists>t. \<forall>vis stk. (\<forall>w\<in>vis. \<not> encodable n h w) \<longrightarrow> n \<le> Suc stk \<longrightarrow>
         serializeValue stk v8 h passThrough x vis = (Inr t, vis)"
proof (induction n arbitrary: x)
  case 0
  then show ?case by simp
next
  case (Suc m)
  show ?case
  proof (cases "encodable m h x")
    case True
    from Suc.IH [OF True] obtain t where t: "\<And>vis stk. (\<forall>w\<in>vis. \<not> encodable m h w) \<Longrightarrow>
        m \<le> Suc stk \<Longrightarrow> serializeValue stk v8 h passThrough x vis = (Inr t, vis)"
      by blast
    have "serializeValue stk v8 h passThrough x vis = (Inr t, vis)"
      if "\<forall>w\<in>vis. \<not> encodable (Suc m) h w" and "Suc m \<le> Suc stk" for vis stk
      using that t [of vis stk] encodable_Suc by auto
    then show ?thesis by blast
  next
    case shallow: False
    have fresh: "\<not> visited_has vis x" if "\<forall>w\<in>vis. \<not> encodable (Suc m) h w" for vis
      using that Suc.prems encodable_setKey [of "Suc m" h x] by (auto simp: visited_has_def)
    have below: "\<forall>w\<in>insert x vis. \<not> encodable m h w"
      if "\<forall>w\<in>vis. \<not> encodable (Suc m) h w" for vis
      using that shallow encodable_Suc by auto
    have elements: "\<exists>ss. \<forall>vis stk. (\<forall>w\<in>vis. \<not> encodable m h w) \<longrightarrow> m \<le> stk \<longrightarrow>
        serializeElements stk v8 h passThrough xs vis = (Inr ss, vis)"
      if kids: "list_all (encodable m h) xs" for xs
    proof (cases "xs = []")
      case True
      then show ?thesis by simp
    next
      case False
      with kids obtain m' where m: "m = Suc m'"
        by (cases m; cases xs) auto
      from kids Suc.IH have "list_all (\<lambda>x. \<exists>t. \<forall>vis stk. (\<forall>w\<in>vis. \<not> encodable m h w)
          \<longrightarrow> m \<le> Suc stk \<longrightarrow> serializeValue stk v8 h passThrough x vis = (Inr t, vis)) xs"
        by (simp add: list_all_iff)
      then obtain ss where ss: "list_all2 (\<lambda>x t. \<forall>vis stk. (\<forall>w\<in>vis. \<not> encodable m h w)
          \<longrightarrow> m \<le> Suc stk \<longrightarrow> serializeValue stk v8 h passThrough x vis = (Inr t, vis)) xs ss"
        using list_all_choice by fast
      have "serializeElements stk v8 h passThrough xs vis = (Inr ss, vis)"
        if inv: "\<forall>w\<in>vis. \<not> encodable m h w" and room: "m \<le> stk" for vis stk
      proof -
        from room m obtain s where s: "stk = Suc s" "m \<le> Suc s" by (cases stk) auto
        from ss inv s(2)
        have "list_all2 (\<lambda>x t. serializeValue s v8 h passThrough x vis = (Inr t, vis)) xs ss"
          by (simp add: list_all2_conv_all_nth)
        then show ?thesis by (simp add: s(1) serializeElements_success)
      qed
      then show ?thesis by blast
    qed
    show ?thesis
    proof (cases "container h x")
      case False
      from Suc.prems have "classifiableVal h x" by simp
      from leafResult_classifiable [OF this False] obtain t where t: "leafResult v8 h x = Inr t"
        by blast
      have "serializeValue stk v8 h passThrough x vis = (Inr t, vis)"
        if "\<forall>w\<in>vis. \<not> encodable (Suc m) h w" for vis stk
        using fresh [OF that] False t
        by (simp add: serializeValue_leaf [where hs = passThrough, OF passThrough_apply])
      then show ?thesis by blast
    next
      case True
      then obtain a where x: "x = VRef a"
        by (auto simp: container_def split: val.splits)
      from True x consider xs where "lookup h a = Some (OArray xs)"
        | ps where "lookup h a = Some (OObject ps)"
        by (auto simp: container_def split: option.splits obj.splits)
      then show ?thesis
      proof cases
        case 1
        with Suc.prems x have "list_all (encodable m h) xs" by simp
        from elements [OF this] obtain ss where ss: "\<And>vis stk. (\<forall>w\<in>vis. \<not> encodable m h w)
            \<Longrightarrow> m \<le> stk \<Longrightarrow> serializeElements stk v8 h passThrough xs vis = (Inr ss, vis)"
          by blast
        have "serializeValue stk v8 h passThrough x vis = (Inr (tagA ss), vis)"
          if inv: "\<forall>w\<in>vis. \<not> encodable (Suc m) h w" and room: "Suc m \<le> Suc stk" for vis stk
        proof -
          from fresh [OF inv] x have out: "VRef a \<notin> vis" by (simp add: visited_has_def)
          from ss [OF below [OF inv]] room x
          have "serializeElements stk v8 h passThrough xs (insert (VRef a) vis)
              = (Inr ss, insert (VRef a) vis)" by simp
          with out show ?thesis
            unfolding x
            by (simp add: serializeValue_array [where hs = passThrough, OF passThrough_apply out 1])
        qed
        then show ?thesis by blast
      next
        case 2
        with Suc.prems x have "list_all (encodable m h) (map snd ps)" by simp
        from elements [OF this] obtain ss where ss: "\<And>vis stk. (\<forall>w\<in>vis. \<not> encodable m h w)
            \<Longrightarrow> m \<le> stk \<Longrightarrow>
            serializeElements stk v8 h passThrough (map snd ps) vis = (Inr ss, vis)"
          by blast
        have "serializeValue stk v8 h passThrough x vis
            = (Inr (tagO (zip (map fst ps) ss)), vis)"
          if inv: "\<forall>w\<in>vis. \<not> encodable (Suc m) h w" and room: "Suc m \<le> Suc stk" for vis stk
        proof -
          from fresh [OF inv] x have out: "VRef a \<notin> vis" by (simp add: visited_has_def)
          from ss [OF below [OF inv]] room x
          have "serializeElements stk v8 h passThrough (map snd ps) (insert (VRef a) vis)
              = (Inr ss, insert (VRef a) vis)" by simp
          with out show ?thesis
            unfolding x
            by (simp add: serializeValue_object [where hs = passThrough, OF passThrough_apply out 2]
                serializeProperties_elements)
        qed
        then show ?thesis by blast
      qed
    qed
  qed
qed

lemma encodable_least:
  assumes "encodable n h x"
  shows "\<exists>m\<le>n. encodable m h x \<and> (\<forall>k<m. \<not> encodable k h x)"
proof -
  define m where "m = (LEAST k. encodable k h x)"
  have "encodable m h x" unfolding m_def using assms by (rule LeastI)
  moreover have "m \<le> n" unfolding m_def using assms by (rule Least_le)
  moreover have "\<not> encodable k h x" if "k < m" for k
    using that not_less_Least unfolding m_def by blast
  ultimately show ?thesis by blast
qed

lemma self_reference_not_encodable:
  "selfReferential h a \<Longrightarrow> \<not> encodable n h (VRef a)"
proof (induction n)
  case 0
  then show ?case by simp
next
  case (Suc n)
  then show ?case
    by (force simp: selfReferential_def list_all_iff split: option.splits obj.splits)
qed

section \<open>Nested arrays\<close>

lemma nestedHeap_length [simp]: "length (nestedHeap d) = Suc d"
  by (induction d) simp_all

lemma nestedHeap_lookup:
  "i \<le> d \<Longrightarrow> lookup (nestedHeap d) i = Some (OArray (if i = 0 then [] else [VRef (i - 1)]))"
proof (induction d)
  case 0
  then show ?case by (simp add: lookup_def)
next
  case (Suc d)
  show ?case
  proof (cases "i = Suc d")
    case True
    then show ?thesis by (simp add: lookup_def nth_append)
  next
    case False
    with Suc.prems have "i \<le> d" by simp
    with Suc.IH show ?thesis by (simp add: lookup_def nth_append split: if_splits)
  qed
qed

lemma nested_encodes:
  "i \<le> d \<Longrightarrow> \<forall>j\<le>i. VRef j \<notin> vis \<Longrightarrow> i \<le> stk \<Longrightarrow>
   serializeValue stk v8 (nestedHeap d) passThrough (VRef i) vis = (Inr (nestedValue i), vis)"
proof (induction i arbitrary: vis stk)
  case 0
  then have out: "VRef 0 \<notin> vis" by simp
  from nestedHeap_lookup [of 0 d] have cell: "lookup (nestedHeap d) 0 = Some (OArray [])" by simp
  from out show ?case
    by (simp add: serializeValue_array [where hs = passThrough, OF passThrough_apply out cell]
        tagA_def)
next
  case (Suc i)
  then have out: "VRef (Suc i) \<notin> vis" by simp
  from Suc.prems obtain s where s: "stk = Suc s" "i \<le> s" by (cases stk) auto
  from nestedHeap_lookup [of "Suc i" d] Suc.prems
  have cell: "lookup (nestedHeap d) (Suc i) = Some (OArray [VRef i])" by simp
  from Suc.prems s have "serializeValue s v8 (nestedHeap d) passThrough (VRef i)
      (insert (VRef (Suc i)) vis) = (Inr (nestedValue i), insert (VRef (Suc i)) vis)"
    by (intro Suc.IH) auto
  with out show ?case
    by (simp add: s(1) tagA_def
        serializeValue_array [where hs = passThrough, OF passThrough_apply out cell])
qed

lemma nested_overflows:
  "i \<le> d \<Longrightarrow> \<forall>j\<le>i. VRef j \<notin> vis \<Longrightarrow> stk < i \<Longrightarrow>
   fst (serializeValue stk v8 (nestedHeap d) passThrough (VRef i) vis) = Inl CallStackExceeded"
proof (induction i arbitrary: vis stk)
  case 0
  then show ?case by simp
next
  case (Suc i)
  then have out: "VRef (Suc i) \<notin> vis" by simp
  from nestedHeap_lookup [of "Suc i" d] Suc.prems
  have cell: "lookup (nestedHeap d) (Suc i) = Some (OArray [VRef i])" by simp
  show ?case
  proof (cases stk)
    case 0
    then show ?thesis
      by (simp add: serializeValue_array [where hs = passThrough, OF passThrough_apply out cell])
  next
    case (Suc s)
    with Suc.prems have "fst (serializeValue s v8 (nestedHeap d) passThrough (VRef i)
        (insert (VRef (Suc i)) vis)) = Inl CallStackExceeded"
      by (intro Suc.IH) auto
    then show ?thesis
      by (cases "serializeValue s v8 (nestedHeap d) passThrough (VRef i) (insert (VRef (Suc i)) vis)")
        (simp add: Suc
          serializeValue_array [where hs = passThrough, OF passThrough_apply out cell])
  qed
qed

section \<open>Decoding what the encoder wrote\<close>

lemma setOwn_fresh:
  "k \<notin> fst ` set acc \<Longrightarrow> setOwn acc k y = acc @ [(k, y)]"
  by (induction acc k y rule: setOwn.induct) auto

lemma setProperty_own:
  "k \<noteq> ''__proto__'' \<Longrightarrow>
   setProperty engine (ObjectPrototype, acc) k y = Inr (ObjectPrototype, setOwn acc k y)"
  by (simp add: setProperty_def)

lemma parseElements_all:
  "list_all2 (\<lambda>s d. parseSerializedValue stk engine s handles = Inr d) ss ds
     \<Longrightarrow> parseElements (Suc stk) engine ss handles = Inr ds"
  by (induction ss ds rule: list_all2_induct) simp_all

lemma parseProperties_all:
  "list_all2 (\<lambda>s d. parseSerializedValue stk engine s handles = Inr d) ss ds \<Longrightarrow>
   length ks = length ss \<Longrightarrow> distinct (map fst acc @ ks) \<Longrightarrow> ''__proto__'' \<notin> set ks \<Longrightarrow>
   parseProperties (Suc stk) engine (zip ks ss) handles (ObjectPrototype, acc)
     = Inr (ObjectPrototype, acc @ zip ks ds)"
proof (induction ss ds arbitrary: ks acc rule: list_all2_induct)
  case Nil
  then show ?case by simp
next
  case (Cons s ss d ds)
  from Cons.prems obtain k ks' where ks: "ks = k # ks'" by (cases ks) auto
  with Cons.prems have fresh: "k \<notin> fst ` set acc" and plain: "k \<noteq> ''__proto__''" by auto
  from Cons.prems ks have "distinct (map fst (acc @ [(k, d)]) @ ks')" by auto
  with Cons.IH [of ks' "acc @ [(k, d)]"] Cons.prems ks
  have "parseProperties (Suc stk) engine (zip ks' ss) handles (ObjectPrototype, acc @ [(k, d)])
      = Inr (ObjectPrototype, (acc @ [(k, d)]) @ zip ks' ds)"
    by simp
  with Cons.hyps ks fresh plain show ?case
    by (simp add: setOwn_fresh setProperty_own)
qed

lemma structEqElements_all:
  "list_all2 (structEq h) xs ds \<Longrightarrow> structEqElements h xs ds"
  by (induction xs ds rule: list_all2_induct) simp_all

lemma structEqProperties_each:
  "(\<And>k d. (k, d) \<in> set qs \<Longrightarrow> \<exists>x. map_of ps k = Some x \<and> structEq h x d)
     \<Longrightarrow> structEqProperties h ps qs"
proof (induction qs)
  case Nil
  then show ?case by simp
next
  case (Cons q qs)
  obtain k d where q: "q = (k, d)" by (cases q)
  from Cons.prems [of k d] q obtain x where "map_of ps k = Some x" "structEq h x d" by auto
  moreover from Cons have "structEqProperties h ps qs" by simp
  ultimately show ?case by (simp add: q)
qed

lemma structEqProperties_all:
  assumes keys: "distinct (map fst ps)"
    and vals: "list_all2 (structEq h) (map snd ps) ds"
  shows "structEqProperties h ps (zip (map fst ps) ds)"
proof (rule structEqProperties_each)
  fix k d
  assume "(k, d) \<in> set (zip (map fst ps) ds)"
  then obtain i where i: "i < length ps" "i < length ds" "k = fst (ps ! i)" "d = ds ! i"
    by (auto simp: set_zip)
  from keys i(1) have "map_of ps (fst (ps ! i)) = Some (snd (ps ! i))"
    by (intro map_of_is_SomeI) (auto simp: in_set_conv_nth)
  moreover from vals i have "structEq h (snd (ps ! i)) (ds ! i)"
    by (auto simp: list_all2_conv_all_nth)
  ultimately show "\<exists>x. map_of ps k = Some x \<and> structEq h x d"
    using i by simp
qed

lemma leaf_round_trip:
  "dataValue (writtenBack engine) n h x \<Longrightarrow> \<not> container h x \<Longrightarrow> leafResult v8 h x = Inr s \<Longrightarrow>
   \<exists>d. parseSerializedValue stk engine s handles = Inr d \<and> structEq h x d"
  by (cases n)
    (auto simp: leafResult_def container_def passThrough_def visited_has_def
      serializeValue.simps(1) writtenBack_def tagN_def tagS_def tagB_def tagV_def tagD_def
      tagR_def parseSpecial_def
      split: val.splits number.splits option.splits obj.splits date.splits)

text \<open>
  Whatever the encoder returns for a value built from numbers, strings, booleans, null,
  undefined, dates and regular expressions that are written back, arrays and plain
  objects with no key \<^verbatim>\<open>__proto__\<close>, the decoder turns into a structurally equal value,
  when its own recursion fits the stack.
\<close>

lemma round_trip:
  "dataValue (writtenBack engine) n h x \<Longrightarrow>
   serializeValue stk v8 h passThrough x vis = (Inr s, vis') \<Longrightarrow> n \<le> Suc stk' \<Longrightarrow>
   \<exists>d. parseSerializedValue stk' engine s handles = Inr d \<and> structEq h x d"
proof (induction n arbitrary: x stk stk' vis s vis')
  case 0
  then show ?case by simp
next
  case (Suc m)
  have elements: "\<exists>ds. parseElements stk' engine ss handles = Inr ds
      \<and> list_all2 (structEq h) xs ds
      \<and> (\<forall>ks. length ks = length xs \<and> distinct ks \<and> ''__proto__'' \<notin> set ks \<longrightarrow>
           parseProperties stk' engine (zip ks ss) handles (ObjectPrototype, [])
             = Inr (ObjectPrototype, zip ks ds))"
    if kids: "list_all (dataValue (writtenBack engine) m h) xs"
      and run: "serializeElements stk v8 h passThrough xs w = (Inr ss, w')" for xs ss w w'
  proof (cases xs)
    case Nil
    with run show ?thesis by simp
  next
    case (Cons y ys)
    with run obtain s0 where s0: "stk = Suc s0"
      by (cases stk) simp_all
    from Cons kids obtain m' where m': "m = Suc m'"
      by (cases m) simp_all
    with Suc.prems(3) obtain t where t: "stk' = Suc t" "m \<le> Suc t"
      by (cases stk') simp_all
    from run have "list_all2 (\<lambda>x u. serializeValue s0 v8 h passThrough x w = (Inr u, w)) xs ss"
      by (simp add: s0 serializeElements_success)
    then have len: "length xs = length ss"
      and runs: "\<And>i. i < length xs \<Longrightarrow>
        serializeValue s0 v8 h passThrough (xs ! i) w = (Inr (ss ! i), w)"
      by (simp_all add: list_all2_conv_all_nth)
    have "\<exists>d. parseSerializedValue t engine (ss ! i) handles = Inr d \<and> structEq h (xs ! i) d"
      if "i < length xs" for i
    proof (rule Suc.IH)
      from kids that
      show "dataValue (writtenBack engine) m h (xs ! i)" by (simp add: list_all_length)
      from runs [OF that]
      show "serializeValue s0 v8 h passThrough (xs ! i) w = (Inr (ss ! i), w)" .
      from t show "m \<le> Suc t" by simp
    qed
    with len have "list_all2 (\<lambda>x u. \<exists>d. parseSerializedValue t engine u handles = Inr d
        \<and> structEq h x d) xs ss"
      by (simp add: list_all2_conv_all_nth)
    then have "\<exists>ds. list_all2 (\<lambda>u d. parseSerializedValue t engine u handles = Inr d) ss ds
        \<and> list_all2 (structEq h) xs ds"
    proof (induction xs ss rule: list_all2_induct)
      case Nil
      then show ?case by simp
    next
      case (Cons x xs u us)
      then obtain d ds where "parseSerializedValue t engine u handles = Inr d" "structEq h x d"
        "list_all2 (\<lambda>u d. parseSerializedValue t engine u handles = Inr d) us ds"
        "list_all2 (structEq h) xs ds"
        by blast
      then have "list_all2 (\<lambda>u d. parseSerializedValue t engine u handles = Inr d) (u # us) (d # ds)
          \<and> list_all2 (structEq h) (x # xs) (d # ds)" by simp
      then show ?case by blast
    qed
    then obtain ds
      where ds: "list_all2 (\<lambda>u d. parseSerializedValue t engine u handles = Inr d) ss ds"
        "list_all2 (structEq h) xs ds" by blast
    have "parseProperties stk' engine (zip ks ss) handles (ObjectPrototype, [])
        = Inr (ObjectPrototype, zip ks ds)"
      if "length ks = length xs" "distinct ks" "''__proto__'' \<notin> set ks" for ks
      using parseProperties_all [OF ds(1), of ks "[]"] that len by (simp add: t(1))
    with parseElements_all [OF ds(1)] ds(2) show ?thesis
      by (auto simp: t(1))
  qed
  show ?case
  proof (cases rule: serializeValue_cases [where hs = passThrough and x = x and vis = vis and h = h])
    case (handle k)
    then show ?thesis by (simp add: passThrough_def)
  next
    case (circular y)
    with Suc.prems show ?thesis by (simp add: serializeValue_circular)
  next
    case (leaf y)
    then have "y = x" by (simp add: passThrough_def)
    with leaf Suc.prems leaf_round_trip [of engine "Suc m" h x v8 s stk' handles] show ?thesis
      by (simp add: serializeValue_leaf)
  next
    case (array a xs)
    then have x: "x = VRef a" by (simp add: passThrough_def)
    from Suc.prems(1) x array(3) have kids: "list_all (dataValue (writtenBack engine) m h) xs"
      by simp
    from Suc.prems(2) obtain ss w where run: "serializeElements stk v8 h passThrough xs
        (insert (VRef a) vis) = (Inr ss, w)" and s: "s = tagA ss"
      unfolding serializeValue_array [where hs = passThrough and x = x, OF array]
      by (auto split: sum.splits prod.splits)
    from elements [OF kids run] obtain ds
      where ds: "parseElements stk' engine ss handles = Inr ds" "list_all2 (structEq h) xs ds"
      by blast
    from ds(1) s
    have "parseSerializedValue stk' engine s handles = Inr (FreshArray ds)"
      by (simp add: tagA_def)
    moreover from structEqElements_all [OF ds(2)] x array(3)
    have "structEq h x (FreshArray ds)" by simp
    ultimately show ?thesis by blast
  next
    case (object a ps)
    then have x: "x = VRef a" by (simp add: passThrough_def)
    from Suc.prems(1) x object(3)
    have kids: "list_all (dataValue (writtenBack engine) m h) (map snd ps)"
      and keys: "distinct (map fst ps)" and plain: "''__proto__'' \<notin> set (map fst ps)"
      by simp_all
    from Suc.prems(2) obtain ss w where run: "serializeElements stk v8 h passThrough (map snd ps)
        (insert (VRef a) vis) = (Inr ss, w)" and s: "s = tagO (zip (map fst ps) ss)"
      unfolding serializeValue_object [where hs = passThrough and x = x, OF object]
        serializeProperties_elements
      by (auto split: sum.splits prod.splits)
    from elements [OF kids run] obtain ds
      where ds: "list_all2 (structEq h) (map snd ps) ds"
        and props: "\<And>ks. length ks = length (map snd ps) \<Longrightarrow> distinct ks \<Longrightarrow>
          ''__proto__'' \<notin> set ks \<Longrightarrow>
          parseProperties stk' engine (zip ks ss) handles (ObjectPrototype, [])
            = Inr (ObjectPrototype, zip ks ds)"
      by blast
    from props [of "map fst ps"] keys plain s
    have "parseSerializedValue stk' engine s handles
        = Inr (FreshObject ObjectPrototype (zip (map fst ps) ds))"
      by (simp add: tagO_def)
    moreover from ds have len: "length ds = length ps"
      by (auto dest: list_all2_lengthD)
    with structEqProperties_all [OF keys ds] keys x object(3)
    have "structEq h x (FreshObject ObjectPrototype (zip (map fst ps) ds))"
      by simp
    ultimately show ?thesis by blast
  qed
qed

lemma data_round_trip:
  assumes "dataValue (writtenBack engine) n h x" and "n \<le> Suc stk" and "n \<le> Suc stk'"
  shows "\<exists>s d. serializeValue stk v8 h passThrough x {} = (Inr s, {})
           \<and> parseSerializedValue stk' engine s handles = Inr d \<and> structEq h x d"
proof -
  from assms(1) have "encodable n h x" by (rule dataValue_encodable)
  from encodable_encodes [OF this, of v8] assms(2) obtain s
    where run: "serializeValue stk v8 h passThrough x {} = (Inr s, {})"
    by auto
  from round_trip [OF assms(1) run assms(3)] run show ?thesis by blast
qed

text \<open>With a handle table the decoder has no way to the unexpected-handle error.\<close>

lemma parse_with_table:
  "parseSerializedValue stk engine sv (Some table) \<noteq> Inl UnexpectedHandle"
  "parseElements stk engine svs (Some table) \<noteq> Inl UnexpectedHandle"
  "parseProperties stk engine ps (Some table) acc \<noteq> Inl UnexpectedHandle"
proof (induction stk engine sv "Some table" and stk engine svs "Some table"
    and stk engine ps "Some table" acc
    rule: parseSerializedValue_parseElements_parseProperties.induct)
  case (1 stack engine n s b v d r a ob hk)
  then show ?case by (auto split: option.splits sum.splits prod.splits)
next
  case (4 stack engine x xs)
  then show ?case by (auto split: sum.splits)
next
  case (7 stack engine k x ps result)
  then show ?case
    by (auto simp: setProperty_def split: sum.splits prototype.splits option.splits if_splits)
qed simp_all

section \<open>The claims\<close>

lemmas evalDefs = passThrough_def visited_has_def visited_add_def visited_delete_def lookup_def
  tagN_def tagS_def tagB_def tagV_def tagD_def tagR_def tagA_def tagO_def tagH_def noFields_def

subsection \<open>C1: the round trip\<close>

text \<open>
  C1 fails on an invalid Date, a date like any other to \<^verbatim>\<open>isDate\<close>: \<^verbatim>\<open>toJSON()\<close> answers
  \<^verbatim>\<open>null\<close> for it, the encoder writes \<^verbatim>\<open>{d: null}\<close> whatever the platform and the room of the
  stack, the decoder finds \<^verbatim>\<open>d\<close> different from \<^verbatim>\<open>undefined\<close> and builds \<^verbatim>\<open>new Date(null)\<close>,
  the first of January 1970, on every engine: a valid date, and not the one encoded.
  (\<open>data_round_trip\<close> above is the round trip that does hold: for valid dates and regular
  expressions that the engine reads back as written, objects without a key \<^verbatim>\<open>__proto__\<close>, and
  nesting that fits the call stack.)
\<close>

theorem invalid_date_decodes_as_epoch:
  "dataValue anyLeaf 1 [ODate InvalidDate] (VRef 0)
   \<and> serializeValue stk v8 [ODate InvalidDate] passThrough (VRef 0) {} = (Inr (tagD None), {})
   \<and> parseSerializedValue stk' engine (tagD None) handles
       = Inr (FreshDate (ValidDate ''1970-01-01T00:00:00.000Z''))
   \<and> \<not> structEq [ODate InvalidDate] (VRef 0) (FreshDate (ValidDate ''1970-01-01T00:00:00.000Z''))"
  by (simp add: serializeValue.simps(1) evalDefs anyLeaf_def)

subsection \<open>C2: the visited set after a call\<close>

text \<open>
  C2, as the code has it. A run of \<open>serializeValue\<close> that returns a value leaves the
  visited set exactly as it found it: every array or object added on the way down has been
  removed again, so a set that is empty at the top-level call is empty after a call that
  returns. A run that throws removes nothing the caller had put there; and when the value
  of the call, as the resolver passed it through, is an array or an object of the last
  kind, that value is in the set after the throw, whatever the set was before:
  \<^verbatim>\<open>visited.delete\<close> is not reached on the throwing path.
\<close>

theorem visited_restored_on_return:
  assumes run: "serializeValue stk v8 h hs x vis = (r, vis')"
  shows "case r of
        Inr s \<Rightarrow> vis' = vis
      | Inl e \<Rightarrow>
          vis \<subseteq> vis'
          \<and> (\<forall>a xs. hs x = FallThrough (VRef a) \<and> lookup h a = Some (OArray xs) \<longrightarrow> VRef a \<in> vis')
          \<and> (\<forall>a ps. hs x = FallThrough (VRef a) \<and> lookup h a = Some (OObject ps) \<longrightarrow> VRef a \<in> vis')"
proof (cases r)
  case (Inr s)
  with serializeValue_visited [OF run] show ?thesis by simp
next
  case (Inl e)
  have "VRef a \<in> vis'" if "hs x = FallThrough (VRef a)" "container h (VRef a)" for a
    using serializeValue_throw_keeps [OF run [unfolded Inl] that] .
  with serializeValue_visited [OF run] Inl show ?thesis
    by (auto simp: container_def)
qed

text \<open>
  A run that returns: the array holding one object twice, from the empty set. A run that
  throws: an array holding an object that holds itself; the array is in the set afterwards.
\<close>

theorem visited_restored_on_return_witness:
  "(\<exists>s. serializeValue 3 True [OArray [VRef 1, VRef 1], OObject [(''k'', VNum (Finite 1))]]
           passThrough (VRef 0) {} = (Inr s, {}))
   \<and> (\<exists>e vis'. serializeValue 3 True [OArray [VRef 1], OObject [(''self'', VRef 1)]]
           passThrough (VRef 0) {} = (Inl e, vis') \<and> VRef 0 \<in> vis')"
proof -
  obtain r vis' where run:
    "serializeValue 3 True [OArray [VRef 1, VRef 1], OObject [(''k'', VNum (Finite 1))]]
       passThrough (VRef 0) {} = (r, vis')" and ok: "\<exists>s. r = Inr s"
    by (simp add: eval_nat_numeral serializeValue.simps(1) evalDefs)
  from visited_restored_on_return [OF run] ok have "vis' = {}" by auto
  with run ok have first: "\<exists>s. serializeValue 3 True
      [OArray [VRef 1, VRef 1], OObject [(''k'', VNum (Finite 1))]] passThrough (VRef 0) {}
        = (Inr s, {})" by auto
  obtain r2 w where run2:
    "serializeValue 3 True [OArray [VRef 1], OObject [(''self'', VRef 1)]]
       passThrough (VRef 0) {} = (r2, w)" and thrown: "\<exists>e. r2 = Inl e"
    by (simp add: eval_nat_numeral serializeValue.simps(1) evalDefs)
  have cell: "passThrough (VRef 0) = FallThrough (VRef 0)
      \<and> lookup [OArray [VRef 1], OObject [(''self'', VRef 1)]] 0 = Some (OArray [VRef 1])"
    by (simp add: passThrough_def lookup_def)
  from visited_restored_on_return [OF run2] thrown cell have "VRef 0 \<in> w" by auto
  with run2 thrown first show ?thesis by auto
qed

text \<open>
  Against C2 as the spec words it: the array \<^verbatim>\<open>a\<close> with \<^verbatim>\<open>a[0] = a\<close>, encoded at the top level
  with an empty visited set, throws the circular-structure error and leaves \<^verbatim>\<open>a\<close> in the
  set; the set is not empty after this top-level call.
\<close>

theorem visited_kept_after_throw:
  "serializeValue 2 True [OArray [VRef 0]] passThrough (VRef 0) {}
     = (Inl CircularStructure, {VRef 0})"
  by (simp add: eval_nat_numeral serializeValue.simps(1) evalDefs)

subsection \<open>C3: self-reference\<close>




subsection \<open>C4: handles\<close>



subsection \<open>C5: one object at two sibling positions\<close>

text \<open>
  C5, as the code has it. Let \<open>x\<close> be non-cyclic (what it contains ends within \<open>n\<close> levels),
  in a heap where every array element and property value is one the encoder classifies
  (no bigint, no function), and let the call stack have room for \<open>n\<close> nested calls. Then
  \<open>x\<close> is encoded, to \<open>s\<close> say; the array \<^verbatim>\<open>[x, x]\<close> is encoded to the tagged value whose
  only field is \<^verbatim>\<open>a\<close>, holding \<open>s\<close> at both positions, and the visited set is empty again
  afterwards; and an array \<^verbatim>\<open>c = [x, c]\<close>, which shares with its own ancestor (itself),
  throws the circular-structure error.
\<close>

theorem sibling_sharing:
  assumes heap: "classifiable h" and x: "nonCyclic n h x"
    and a: "lookup h a = Some (OArray [x, x])" and room: "n \<le> stk"
  shows "\<exists>s. serializeValue stk v8 h passThrough x {} = (Inr s, {})
           \<and> serializeValue stk v8 h passThrough (VRef a) {}
               = (Inr (SerializedValue None None None None None None (Some [s, s]) None None), {})
           \<and> (\<forall>c. lookup h c = Some (OArray [x, VRef c]) \<longrightarrow>
                 serializeValue stk v8 h passThrough (VRef c) {}
                   = (Inl CircularStructure, {VRef c}))"
proof -
  from classifiable_elements [OF heap a] have "classifiableVal h x" by simp
  with heap x have "encodable n h x" by (simp add: nonCyclic_encodable)
  then obtain m where m: "m \<le> n" "encodable m h x" "\<And>k. k < m \<Longrightarrow> \<not> encodable k h x"
    using encodable_least by blast
  from encodable_encodes [OF m(2)] obtain s
    where s: "\<And>vis stk. (\<forall>w\<in>vis. \<not> encodable m h w) \<Longrightarrow> m \<le> Suc stk \<Longrightarrow>
        serializeValue stk v8 h passThrough x vis = (Inr s, vis)"
    by blast
  from m(2) have "m \<noteq> 0" by (cases m) auto
  with m(1) room obtain f where f: "stk = Suc f" "m \<le> Suc f" by (cases stk) auto
  have alone: "serializeValue stk v8 h passThrough x {} = (Inr s, {})"
    using s [of "{}" stk] m(1) room by simp
  have above: "\<not> encodable m h (VRef a)"
  proof
    assume enc: "encodable m h (VRef a)"
    then obtain k where k: "m = Suc k" by (cases m) auto
    with enc a have "encodable k h x" by simp
    with m(3) [of k] k show False by simp
  qed
  then have "serializeValue f v8 h passThrough x {VRef a} = (Inr s, {VRef a})"
    using s [of "{VRef a}" f] f(2) by simp
  then have "serializeElements (Suc f) v8 h passThrough [x, x] (insert (VRef a) {})
      = (Inr [s, s], insert (VRef a) {})"
    by (simp add: serializeElements_success)
  then have twice: "serializeValue stk v8 h passThrough (VRef a) {}
      = (Inr (SerializedValue None None None None None None (Some [s, s]) None None), {})"
    unfolding f(1)
    by (simp add: tagA_def
        serializeValue_array [where hs = passThrough and vis = "{}", OF passThrough_apply _ a])
  have "serializeValue stk v8 h passThrough (VRef c) {} = (Inl CircularStructure, {VRef c})"
    if c: "lookup h c = Some (OArray [x, VRef c])" for c
  proof -
    from c have "selfReferential h c" by (simp add: selfReferential_def)
    then have "\<not> encodable m h (VRef c)" by (rule self_reference_not_encodable)
    then have first: "serializeValue f v8 h passThrough x {VRef c} = (Inr s, {VRef c})"
      using s [of "{VRef c}" f] f(2) by simp
    have second: "serializeValue f v8 h passThrough (VRef c) {VRef c}
        = (Inl CircularStructure, {VRef c})"
      by (simp add: serializeValue_circular [where hs = passThrough, OF passThrough_apply]
          visited_has_def)
    from first second show ?thesis
      unfolding f(1)
      by (simp add:
          serializeValue_array [where hs = passThrough and vis = "{}", OF passThrough_apply _ c])
  qed
  with alone twice show ?thesis by blast
qed

text \<open>
  The object \<^verbatim>\<open>x = {k: 1}\<close>, the array \<^verbatim>\<open>[x, x]\<close> and the array \<^verbatim>\<open>c = [x, c]\<close>: the first array is
  encoded with the encoding of \<open>x\<close> at both positions, the second is circular.
\<close>

theorem sibling_sharing_witness:
  "classifiable [OArray [VRef 1, VRef 1], OObject [(''k'', VNum (Finite 1))],
      OArray [VRef 1, VRef 2]]
   \<and> nonCyclic 2 [OArray [VRef 1, VRef 1], OObject [(''k'', VNum (Finite 1))],
      OArray [VRef 1, VRef 2]] (VRef 1)
   \<and> serializeValue 2 True [OArray [VRef 1, VRef 1], OObject [(''k'', VNum (Finite 1))],
      OArray [VRef 1, VRef 2]] passThrough (VRef 0) {}
      = (Inr (SerializedValue None None None None None None
          (Some [SerializedValue None None None None None None None
                   (Some [(''k'', SerializedValue (Some (Finite 1)) None None None None None None
                            None None)]) None,
                 SerializedValue None None None None None None None
                   (Some [(''k'', SerializedValue (Some (Finite 1)) None None None None None None
                            None None)]) None])
          None None), {})
   \<and> serializeValue 2 True [OArray [VRef 1, VRef 1], OObject [(''k'', VNum (Finite 1))],
      OArray [VRef 1, VRef 2]] passThrough (VRef 2) {}
      = (Inl CircularStructure, {VRef 2})"
proof -
  let ?h = "[OArray [VRef 1, VRef 1], OObject [(''k'', VNum (Finite 1))], OArray [VRef 1, VRef 2]]"
  have heap: "classifiable ?h"
    by (simp add: classifiable_def classifiableObj_def classifiableVal_def lookup_def)
  have x: "nonCyclic 2 ?h (VRef 1)"
    by (simp add: eval_nat_numeral lookup_def)
  have a: "lookup ?h 0 = Some (OArray [VRef 1, VRef 1])"
    by (simp add: lookup_def)
  have c: "lookup ?h 2 = Some (OArray [VRef 1, VRef 2])"
    by (simp add: lookup_def)
  have alone: "serializeValue 2 True ?h passThrough (VRef 1) {}
      = (Inr (SerializedValue None None None None None None None
                   (Some [(''k'', SerializedValue (Some (Finite 1)) None None None None None None
                            None None)]) None), {})"
    by (simp add: eval_nat_numeral serializeValue.simps(1) evalDefs)
  from sibling_sharing [OF heap x a, of 2 True] alone heap x c show ?thesis by auto
qed

text \<open>
  Against C5 as the spec words it: the object \<^verbatim>\<open>x = {f: function}\<close> is non-cyclic, and
  encoding \<^verbatim>\<open>[x, x]\<close> does not succeed: it throws the unexpected-value error at the first
  position, leaving the array and \<open>x\<close> in the visited set.
\<close>

theorem sibling_sharing_of_a_function_holder:
  "nonCyclic 2 [OArray [VRef 1, VRef 1], OObject [(''f'', VRef 2)], OFunction] (VRef 1)
   \<and> serializeValue 5 True [OArray [VRef 1, VRef 1], OObject [(''f'', VRef 2)], OFunction]
        passThrough (VRef 0) {}
      = (Inl UnexpectedValue, {VRef 0, VRef 1})"
  by (simp add: eval_nat_numeral serializeValue.simps(1) evalDefs insert_commute)

subsection \<open>C6: malformed wire values\<close>

text \<open>
  C6. A tagged value with none of the fields \<^verbatim>\<open>n\<close>, \<^verbatim>\<open>s\<close>, \<^verbatim>\<open>b\<close>, \<^verbatim>\<open>d\<close>, \<^verbatim>\<open>r\<close>, \<^verbatim>\<open>a\<close>, \<^verbatim>\<open>o\<close>, \<^verbatim>\<open>h\<close> set, and
  whose \<^verbatim>\<open>v\<close> is absent or is none of the six recognized literals, makes
  \<open>parseSerializedValue\<close> throw the unexpected-value error, with or without a handle table,
  on every engine and whatever the room of the stack.
\<close>

theorem unrecognized_value_fails:
  assumes "sv_n sv = None" and "sv_s sv = None" and "sv_b sv = None"
    and "sv_v sv \<notin> Some ` {''undefined'', ''null'', ''NaN'', ''Infinity'', ''-Infinity'', ''-0''}"
    and "sv_d sv = None" and "sv_r sv = None" and "sv_a sv = None" and "sv_o sv = None"
    and "sv_h sv = None"
  shows "parseSerializedValue stk engine sv handles = Inl UnexpectedValue"
  using assms by (cases sv) (auto simp: parseSpecial_def split: option.splits)

text \<open>The value with no field at all, and one whose \<^verbatim>\<open>v\<close> is no recognized literal.\<close>

theorem unrecognized_value_fails_witness:
  "\<forall>stk engine.
     parseSerializedValue stk engine noFields None = Inl UnexpectedValue
     \<and> parseSerializedValue stk engine (tagV ''bogus'') (Some []) = Inl UnexpectedValue"
proof (intro allI)
  fix stk engine
  show "parseSerializedValue stk engine noFields None = Inl UnexpectedValue
     \<and> parseSerializedValue stk engine (tagV ''bogus'') (Some []) = Inl UnexpectedValue"
    using unrecognized_value_fails [of noFields stk engine None]
      unrecognized_value_fails [of "tagV ''bogus''" stk engine "Some []"]
    by (simp add: noFields_def tagV_def)
qed

subsection \<open>C7: the error adapter\<close>

text \<open>
  C7, as the code has it. A payload that \<open>serializeError\<close> returns has exactly one of its
  two branches. An error-like value gives the error branch with its message, stack and
  name; any other value gives the value branch with what the encoder returns under the
  pass-through resolver and a new visited set, and the encoder's throw when it throws.
  \<open>parseError\<close> throws on a payload with neither branch; on an error branch alone it
  builds a timeout error when the name is \<^verbatim>\<open>TimeoutError\<close> and a generic error otherwise,
  with the payload's message, and the payload's stack or the empty string when there is
  none. A timeout error sent through both comes back as a timeout error with its message.
  A thrown plain object comes back structurally equal when it is built, without cycles,
  from numbers, strings, booleans, null, undefined, valid dates and regular expressions
  that the engine reads back as written, arrays, and plain objects with no key
  \<^verbatim>\<open>__proto__\<close>, and its nesting fits the call stack on both sides.
\<close>

theorem error_adapter:
  "(serializeError stk v8 h e = Inr p \<longrightarrow> (se_error p = None) \<noteq> (se_value p = None))
   \<and> (errorLike h e = Some (nm, msg, st) \<longrightarrow>
        serializeError stk v8 h e
          = Inr \<lparr>se_error = Some \<lparr>err_message = msg, err_stack = st, err_name = nm\<rparr>,
                 se_value = None\<rparr>)
   \<and> (errorLike h e = None \<longrightarrow>
        serializeError stk v8 h e
          = (case fst (serializeValue stk v8 h passThrough e {}) of
               Inl err \<Rightarrow> Inl err
             | Inr s \<Rightarrow> Inr \<lparr>se_error = None, se_value = Some s\<rparr>))
   \<and> parseError stk' engine \<lparr>se_error = None, se_value = None\<rparr> = Inl MissingErrorOrValue
   \<and> parseError stk' engine
        \<lparr>se_error = Some \<lparr>err_message = msg, err_stack = st, err_name = nm\<rparr>, se_value = None\<rparr>
        = Inr (FreshError (if nm = ''TimeoutError'' then TimeoutErrorClass else ErrorClass)
                 msg (case st of None \<Rightarrow> [] | Some t \<Rightarrow> t))
   \<and> (errorLike h e = Some (''TimeoutError'', msg, st) \<longrightarrow>
        (\<exists>q. serializeError stk v8 h e = Inr q
           \<and> parseError stk' engine q
               = Inr (FreshError TimeoutErrorClass msg (case st of None \<Rightarrow> [] | Some t \<Rightarrow> t))))
   \<and> (lookup h a = Some (OObject ps) \<and> dataValue (writtenBack engine) n h (VRef a)
        \<and> n \<le> Suc stk \<and> n \<le> Suc stk' \<longrightarrow>
        (\<exists>q d. serializeError stk v8 h (VRef a) = Inr q
           \<and> parseError stk' engine q = Inr d \<and> structEq h (VRef a) d))"
proof (intro conjI impI)
  assume "serializeError stk v8 h e = Inr p"
  then show "(se_error p = None) \<noteq> (se_value p = None)"
    by (auto simp: serializeError_def split: option.splits prod.splits sum.splits)
next
  assume "lookup h a = Some (OObject ps) \<and> dataValue (writtenBack engine) n h (VRef a)
      \<and> n \<le> Suc stk \<and> n \<le> Suc stk'"
  then have cell: "lookup h a = Some (OObject ps)"
    and data: "dataValue (writtenBack engine) n h (VRef a)"
    and room: "n \<le> Suc stk" "n \<le> Suc stk'" by simp_all
  from data_round_trip [OF data room, of v8 None] obtain s d
    where "serializeValue stk v8 h passThrough (VRef a) {} = (Inr s, {})"
      "parseSerializedValue stk' engine s None = Inr d" "structEq h (VRef a) d" by blast
  with cell show "\<exists>q d. serializeError stk v8 h (VRef a) = Inr q
      \<and> parseError stk' engine q = Inr d \<and> structEq h (VRef a) d"
    by (simp add: serializeError_def errorLike_def parseError_def)
qed (simp_all add: serializeError_def parseError_def orEmpty_def)

text \<open>
  A timeout error and the plain object \<^verbatim>\<open>{code: 1, when: <a valid date>}\<close>, on an engine that
  reads that date back, with room for three nested calls: the payload of the error has
  the error branch only, and comes back as a timeout error with its message and stack; the
  payload of the object has the value branch only, and comes back as an object with the
  same two properties, structurally equal to the one thrown.
\<close>

theorem error_adapter_witness:
  "serializeError 3 True
      [OError ''TimeoutError'' ''Timeout 30000ms exceeded'' (Some ''stack''),
       OObject [(''code'', VNum (Finite 1)), (''when'', VRef 2)],
       ODate (ValidDate ''2020-01-01T00:00:00.000Z'')] (VRef 0)
     = Inr \<lparr>se_error = Some \<lparr>err_message = ''Timeout 30000ms exceeded'',
               err_stack = Some ''stack'', err_name = ''TimeoutError''\<rparr>, se_value = None\<rparr>
   \<and> parseError 3
        \<lparr>dateParse = (\<lambda>t. if t = ''2020-01-01T00:00:00.000Z'' then ValidDate t else InvalidDate),
         regExpValid = (\<lambda>p f. False), assignUnder = (\<lambda>p ps k x. None)\<rparr>
        \<lparr>se_error = Some \<lparr>err_message = ''Timeout 30000ms exceeded'',
               err_stack = Some ''stack'', err_name = ''TimeoutError''\<rparr>, se_value = None\<rparr>
     = Inr (FreshError TimeoutErrorClass ''Timeout 30000ms exceeded'' ''stack'')
   \<and> serializeError 3 True
      [OError ''TimeoutError'' ''Timeout 30000ms exceeded'' (Some ''stack''),
       OObject [(''code'', VNum (Finite 1)), (''when'', VRef 2)],
       ODate (ValidDate ''2020-01-01T00:00:00.000Z'')] (VRef 1)
     = Inr \<lparr>se_error = None,
            se_value = Some (SerializedValue None None None None None None None
              (Some [(''code'', SerializedValue (Some (Finite 1)) None None None None None None
                        None None),
                     (''when'', SerializedValue None None None None
                        (Some (Some ''2020-01-01T00:00:00.000Z'')) None None None None)])
              None)\<rparr>
   \<and> parseError 3
        \<lparr>dateParse = (\<lambda>t. if t = ''2020-01-01T00:00:00.000Z'' then ValidDate t else InvalidDate),
         regExpValid = (\<lambda>p f. False), assignUnder = (\<lambda>p ps k x. None)\<rparr>
        \<lparr>se_error = None,
         se_value = Some (SerializedValue None None None None None None None
              (Some [(''code'', SerializedValue (Some (Finite 1)) None None None None None None
                        None None),
                     (''when'', SerializedValue None None None None
                        (Some (Some ''2020-01-01T00:00:00.000Z'')) None None None None)])
              None)\<rparr>
     = Inr (FreshObject ObjectPrototype
         [(''code'', Native (VNum (Finite 1))),
          (''when'', FreshDate (ValidDate ''2020-01-01T00:00:00.000Z''))])
   \<and> structEq
      [OError ''TimeoutError'' ''Timeout 30000ms exceeded'' (Some ''stack''),
       OObject [(''code'', VNum (Finite 1)), (''when'', VRef 2)],
       ODate (ValidDate ''2020-01-01T00:00:00.000Z'')] (VRef 1)
      (FreshObject ObjectPrototype
         [(''code'', Native (VNum (Finite 1))),
          (''when'', FreshDate (ValidDate ''2020-01-01T00:00:00.000Z''))])"
proof -
  let ?h = "[OError ''TimeoutError'' ''Timeout 30000ms exceeded'' (Some ''stack''),
       OObject [(''code'', VNum (Finite 1)), (''when'', VRef 2)],
       ODate (ValidDate ''2020-01-01T00:00:00.000Z'')]"
  let ?engine = "\<lparr>dateParse = (\<lambda>t. if t = ''2020-01-01T00:00:00.000Z'' then ValidDate t else InvalidDate),
         regExpValid = (\<lambda>p f. False), assignUnder = (\<lambda>p ps k x. None)\<rparr>"
  let ?payload = "\<lparr>se_error = Some \<lparr>err_message = ''Timeout 30000ms exceeded'',
               err_stack = Some ''stack'', err_name = ''TimeoutError''\<rparr>, se_value = None\<rparr>"
  let ?wire = "\<lparr>se_error = None,
         se_value = Some (SerializedValue None None None None None None None
              (Some [(''code'', SerializedValue (Some (Finite 1)) None None None None None None
                        None None),
                     (''when'', SerializedValue None None None None
                        (Some (Some ''2020-01-01T00:00:00.000Z'')) None None None None)])
              None)\<rparr>"
  let ?copy = "FreshObject ObjectPrototype
         [(''code'', Native (VNum (Finite 1))),
          (''when'', FreshDate (ValidDate ''2020-01-01T00:00:00.000Z''))]"
  have thrown: "errorLike ?h (VRef 0)
      = Some (''TimeoutError'', ''Timeout 30000ms exceeded'', Some ''stack'')"
    by (simp add: errorLike_def lookup_def)
  have plain: "lookup ?h 1 = Some (OObject [(''code'', VNum (Finite 1)), (''when'', VRef 2)])
      \<and> dataValue (writtenBack ?engine) 2 ?h (VRef 1) \<and> (2::nat) \<le> Suc 3"
    by (simp add: eval_nat_numeral lookup_def writtenBack_def)
  have wire: "serializeError 3 True ?h (VRef 1) = Inr ?wire"
    by (simp add: eval_nat_numeral serializeError_def errorLike_def serializeValue.simps(1)
        evalDefs)
  have copy: "parseError 3 ?engine ?wire = Inr ?copy"
    by (simp add: eval_nat_numeral parseError_def setProperty_def)
  note adapter = error_adapter [of 3 True ?h "VRef 0" ?payload "''TimeoutError''"
      "''Timeout 30000ms exceeded''" "Some ''stack''" 3 ?engine 1
      "[(''code'', VNum (Finite 1)), (''when'', VRef 2)]" 2]
  from adapter thrown have sent: "serializeError 3 True ?h (VRef 0) = Inr ?payload"
    by simp
  from adapter thrown sent have parsed: "parseError 3 ?engine ?payload
      = Inr (FreshError TimeoutErrorClass ''Timeout 30000ms exceeded'' ''stack'')"
    by simp
  from adapter plain obtain q d where "serializeError 3 True ?h (VRef 1) = Inr q"
      "parseError 3 ?engine q = Inr d" "structEq ?h (VRef 1) d"
    by auto
  with wire copy have "structEq ?h (VRef 1) ?copy" by simp
  with sent parsed wire copy show ?thesis by blast
qed

text \<open>
  Against C7 as the spec words it: the thrown plain object \<^verbatim>\<open>{cause: new Error('boom')}\<close>.
  It is not error-like, so it goes through the value branch; the encoder flattens the
  error inside it to its stack text, and what \<open>parseError\<close> returns, on every engine, holds
  a string where the original holds an error: not a structurally equal object.
\<close>

theorem thrown_object_holding_an_error:
  "\<forall>engine.
     serializeError 2 True
        [OObject [(''cause'', VRef 1)], OError ''Error'' ''boom'' (Some ''Error: boom'')] (VRef 0)
       = Inr \<lparr>se_error = None,
              se_value = Some (SerializedValue None None None None None None None
                (Some [(''cause'', SerializedValue None (Some ''Error: boom'') None None None None
                         None None None)]) None)\<rparr>
     \<and> parseError 2 engine
         \<lparr>se_error = None,
          se_value = Some (SerializedValue None None None None None None None
                (Some [(''cause'', SerializedValue None (Some ''Error: boom'') None None None None
                         None None None)]) None)\<rparr>
       = Inr (FreshObject ObjectPrototype [(''cause'', Native (VStr ''Error: boom''))])
     \<and> \<not> structEq [OObject [(''cause'', VRef 1)], OError ''Error'' ''boom'' (Some ''Error: boom'')]
           (VRef 0) (FreshObject ObjectPrototype [(''cause'', Native (VStr ''Error: boom''))])"
  by (simp add: eval_nat_numeral serializeError_def errorLike_def parseError_def
      serializeValue.simps(1) evalDefs errorText_def orEmpty_def setProperty_def)

subsection \<open>C8: deeply nested input\<close>

text \<open>
  C8, as the code has it. \<open>serializeValue\<close> has no maximum depth and no error of its own
  for input nested too deeply. Arrays nested \<open>d\<close> deep are encoded when the call stack has
  room for \<open>d\<close> nested calls, and end in the engine's error for an exhausted call stack
  when it has not. A call stack with room for as many nested calls as there are objects
  is never exhausted, whatever the input: the depth of the recursion is bounded by the
  structure of the input. And the errors a call can end in are three: the
  circular-structure error, the unexpected-value error, and the engine's error for an
  exhausted call stack.
\<close>

theorem no_depth_guard:
  "(d \<le> stk \<longrightarrow>
      serializeValue stk v8 (nestedHeap d) passThrough (VRef d) {} = (Inr (nestedValue d), {}))
   \<and> (stk < d \<longrightarrow>
      fst (serializeValue stk v8 (nestedHeap d) passThrough (VRef d) {}) = Inl CallStackExceeded)
   \<and> (length h \<le> stk \<longrightarrow> fst (serializeValue stk v8 h hs x vis) \<noteq> Inl CallStackExceeded)
   \<and> (serializeValue stk v8 h hs x vis = (Inl e, vis') \<longrightarrow>
        e = CircularStructure \<or> e = UnexpectedValue \<or> e = CallStackExceeded)"
proof (intro conjI impI)
  assume "d \<le> stk"
  then show "serializeValue stk v8 (nestedHeap d) passThrough (VRef d) {}
      = (Inr (nestedValue d), {})"
    by (intro nested_encodes) simp_all
next
  assume "stk < d"
  then show "fst (serializeValue stk v8 (nestedHeap d) passThrough (VRef d) {})
      = Inl CallStackExceeded"
    by (intro nested_overflows) simp_all
next
  assume "length h \<le> stk"
  then have "card {b. b < length h \<and> VRef b \<notin> vis} \<le> stk"
    using unvisited_le_length [of h vis] by simp
  from serializeValue_fits [OF this, of v8 hs x]
  show "fst (serializeValue stk v8 h hs x vis) \<noteq> Inl CallStackExceeded"
    by (cases "serializeValue stk v8 h hs x vis") auto
next
  assume "serializeValue stk v8 h hs x vis = (Inl e, vis')"
  then show "e = CircularStructure \<or> e = UnexpectedValue \<or> e = CallStackExceeded"
    by (rule encoder_errors)
qed

text \<open>
  The array \<^verbatim>\<open>[[[[]]]]\<close>, nested three deep: encoded with room for three nested calls,
  the engine's error with room for two. And the array \<^verbatim>\<open>a = [a]\<close>, one object with room for
  one nested call: its error is one of the three, and not that of the call stack.
\<close>

theorem no_depth_guard_witness:
  "serializeValue 3 True (nestedHeap 3) passThrough (VRef 3) {}
     = (Inr (SerializedValue None None None None None None
         (Some [SerializedValue None None None None None None
           (Some [SerializedValue None None None None None None
             (Some [SerializedValue None None None None None None (Some []) None None])
             None None])
           None None])
         None None), {})
   \<and> fst (serializeValue 2 True (nestedHeap 3) passThrough (VRef 3) {}) = Inl CallStackExceeded
   \<and> fst (serializeValue 1 True [OArray [VRef 0]] passThrough (VRef 0) {}) \<noteq> Inl CallStackExceeded
   \<and> (\<exists>e vis'. serializeValue 1 True [OArray [VRef 0]] passThrough (VRef 0) {} = (Inl e, vis')
        \<and> (e = CircularStructure \<or> e = UnexpectedValue \<or> e = CallStackExceeded))"
proof -
  have run: "serializeValue 1 True [OArray [VRef 0]] passThrough (VRef 0) {}
      = (Inl CircularStructure, {VRef 0})"
    by (simp add: eval_nat_numeral serializeValue.simps(1) evalDefs)
  have short: "length [OArray [VRef 0]] \<le> 1" by simp
  have "(3::nat) \<le> 3" "(2::nat) < 3" by simp_all
  with run short
    no_depth_guard [of 3 3 True "[OArray [VRef 0]]" passThrough "VRef 0" "{}" CircularStructure
      "{VRef 0}"]
    no_depth_guard [of 3 2 True "[OArray [VRef 0]]" passThrough "VRef 0" "{}" CircularStructure
      "{VRef 0}"]
    no_depth_guard [of 3 1 True "[OArray [VRef 0]]" passThrough "VRef 0" "{}" CircularStructure
      "{VRef 0}"]
  show ?thesis by (simp add: eval_nat_numeral)
qed

text \<open>
  Against C8 as the spec words it: whatever the room of the call stack, arrays nested one
  level deeper than it has room for make \<open>serializeValue\<close> exhaust it; what ends the call
  is the engine's error, not an error of the encoder for too deep a nesting.
\<close>

theorem deep_nesting_exhausts_the_stack:
  "\<forall>stk. fst (serializeValue stk True (nestedHeap (Suc stk)) passThrough (VRef (Suc stk)) {})
      = Inl CallStackExceeded"
  by (intro allI nested_overflows) simp_all

subsection \<open>C9: a handle beyond the table\<close>

text \<open>
  C9. Decoding \<^verbatim>\<open>{h: k}\<close> against a table whose length is at most \<open>k\<close> does not throw: it
  returns \<^verbatim>\<open>undefined\<close>, on every engine and whatever the room of the stack. And with a
  table supplied, no tagged value at all, however nested, makes the decoder throw the
  unexpected-handle error.
\<close>

theorem handle_beyond_table:
  "(int (length table) \<le> k \<longrightarrow>
      parseSerializedValue stk engine (tagH k) (Some table) = Inr (Native VUndefined))
   \<and> parseSerializedValue stk engine sv (Some table) \<noteq> Inl UnexpectedHandle"
  by (auto simp: parse_with_table tagH_def handleAt_def)

text \<open>Index 1 in a table of one entry, and index 0 in the empty table.\<close>

theorem handle_beyond_table_witness:
  "\<forall>stk engine.
     parseSerializedValue stk engine (tagH 1) (Some [VNull]) = Inr (Native VUndefined)
     \<and> parseSerializedValue stk engine (tagH 0) (Some []) = Inr (Native VUndefined)"
proof (intro allI)
  fix stk engine
  show "parseSerializedValue stk engine (tagH 1) (Some [VNull]) = Inr (Native VUndefined)
     \<and> parseSerializedValue stk engine (tagH 0) (Some []) = Inr (Native VUndefined)"
    using handle_beyond_table [of "[VNull]" 1 stk engine noFields]
      handle_beyond_table [of "[]" 0 stk engine noFields]
    by simp
qed

subsection \<open>C10: an error payload with both branches\<close>

text \<open>
  C10. On a payload with both branches, \<open>parseError\<close> returns the error built from the
  error branch: a timeout error when the name is \<^verbatim>\<open>TimeoutError\<close> and a generic error
  otherwise, with the branch's message, and with the branch's stack or the empty string
  when it has none. The result is the same for every value branch, on every engine and
  whatever the room of the stack: the value branch is not decoded.
\<close>

theorem parseError_prefers_error:
  "parseError stk engine
      \<lparr>se_error = Some \<lparr>err_message = msg, err_stack = st, err_name = nm\<rparr>, se_value = Some sv\<rparr>
     = Inr (FreshError (if nm = ''TimeoutError'' then TimeoutErrorClass else ErrorClass)
         msg (case st of None \<Rightarrow> [] | Some t \<Rightarrow> t))"
  by (simp add: parseError_def orEmpty_def)

text \<open>
  A generic error beside the value \<^verbatim>\<open>{h: 0}\<close>, which alone makes \<open>parseError\<close> throw the
  unexpected-handle error; and a timeout error without a stack beside a value with no
  field at all.
\<close>

theorem parseError_prefers_error_witness:
  "\<forall>stk engine.
     parseError stk engine
        \<lparr>se_error = Some \<lparr>err_message = ''boom'', err_stack = Some ''Error: boom at f'',
                           err_name = ''Error''\<rparr>,
         se_value = Some (SerializedValue None None None None None None None None (Some 0))\<rparr>
       = Inr (FreshError ErrorClass ''boom'' ''Error: boom at f'')
     \<and> parseError stk engine
        \<lparr>se_error = None,
         se_value = Some (SerializedValue None None None None None None None None (Some 0))\<rparr>
       = Inl UnexpectedHandle
     \<and> parseError stk engine
        \<lparr>se_error = Some \<lparr>err_message = ''late'', err_stack = None,
                           err_name = ''TimeoutError''\<rparr>,
         se_value = Some (SerializedValue None None None None None None None None None)\<rparr>
       = Inr (FreshError TimeoutErrorClass ''late'' [])"
proof (intro allI)
  fix stk engine
  have alone: "parseError stk engine
        \<lparr>se_error = None,
         se_value = Some (SerializedValue None None None None None None None None (Some 0))\<rparr>
       = Inl UnexpectedHandle"
    by (simp add: parseError_def)
  from alone
    parseError_prefers_error [of stk engine "''boom''" "Some ''Error: boom at f''" "''Error''"
      "SerializedValue None None None None None None None None (Some 0)"]
    parseError_prefers_error [of stk engine "''late''" None "''TimeoutError''"
      "SerializedValue None None None None None None None None None"]
  show "parseError stk engine
        \<lparr>se_error = Some \<lparr>err_message = ''boom'', err_stack = Some ''Error: boom at f'',
                           err_name = ''Error''\<rparr>,
         se_value = Some (SerializedValue None None None None None None None None (Some 0))\<rparr>
       = Inr (FreshError ErrorClass ''boom'' ''Error: boom at f'')
     \<and> parseError stk engine
        \<lparr>se_error = None,
         se_value = Some (SerializedValue None None None None None None None None (Some 0))\<rparr>
       = Inl UnexpectedHandle
     \<and> parseError stk engine
        \<lparr>se_error = Some \<lparr>err_message = ''late'', err_stack = None,
                           err_name = ''TimeoutError''\<rparr>,
         se_value = Some (SerializedValue None None None None None None None None None)\<rparr>
       = Inr (FreshError TimeoutErrorClass ''late'' [])"
    by simp
qed

end
